theory Spec2Isabelle
  imports Complex_Main "HOL-Library.AList"
begin

section \<open>Facility location by particle swarm: the fitness evaluator\<close>

text \<open>
  The development follows \<^verbatim>\<open>src/optimization/facility_pso.py\<close>. Python floats are
  idealised as \<^typ>\<open>real\<close> (no rounding, no NaN, no infinities); a raised exception is the
  value \<open>None\<close>. A Python \<^verbatim>\<open>dict\<close> is an association list in insertion order:
  \<^const>\<open>map_of\<close> is the lookup, \<^const>\<open>AList.update\<close> is \<^verbatim>\<open>d[k] = v\<close> (replace in place,
  or append a new key), and its keys are distinct.
\<close>

type_synonym coord = "real \<times> real"

type_synonym ('k, 'v) dict = "('k \<times> 'v) list"

subsection \<open>Distance oracle\<close>

definition radians :: "real \<Rightarrow> real" where
  "radians x = x * pi / 180"

definition haversine_distance :: "real \<Rightarrow> real \<Rightarrow> real \<Rightarrow> real \<Rightarrow> real" where
  "haversine_distance lat1 lon1 lat2 lon2 =
     (let R = 6371;
          lat1r = radians lat1; lon1r = radians lon1;
          lat2r = radians lat2; lon2r = radians lon2;
          dlat = lat2r - lat1r;
          dlon = lon2r - lon1r;
          a = (sin (dlat / 2))\<^sup>2 + cos lat1r * cos lat2r * (sin (dlon / 2))\<^sup>2;
          c = 2 * arcsin (sqrt a)
      in R * c)"

subsection \<open>Library functions used by the evaluator\<close>

text \<open>\<^verbatim>\<open>numpy.std\<close> with its default \<^verbatim>\<open>ddof = 0\<close>: the population standard deviation.\<close>

definition np_mean :: "real list \<Rightarrow> real" where
  "np_mean xs = sum_list xs / real (length xs)"

definition np_std :: "real list \<Rightarrow> real" where
  "np_std xs = sqrt (sum_list (map (\<lambda>x. (x - np_mean xs)\<^sup>2) xs) / real (length xs))"

text \<open>
  \<^verbatim>\<open>math.ceil(demand / units_per_load)\<close>. With a zero divisor Python's division raises;
  numpy's yields an infinity or a NaN, on which \<^verbatim>\<open>math.ceil\<close> raises.
\<close>

definition loads_for :: "real \<Rightarrow> real \<Rightarrow> int option" where
  "loads_for demand units_per_load =
     (if units_per_load = 0 then None else Some \<lceil>demand / units_per_load\<rceil>)"

subsection \<open>calculate_total_cost\<close>

text \<open>
  The state of the customer loop: the per-facility usage (the dict \<^verbatim>\<open>facility_usage\<close>,
  whose keys are \<open>0..<n\<close>, as a list), the running total and the assignment dict, whose
  values are a facility index or Python's \<^verbatim>\<open>None\<close>.
\<close>

type_synonym cost_state = "real list \<times> real \<times> (string, nat option) dict"

definition penalty_factor :: real where
  "penalty_factor = 1000000"

text \<open>The body of \<^verbatim>\<open>for customer, demand in demands.items()\<close> (source lines 35 to 54).\<close>

definition assign_customer ::
  "coord list \<Rightarrow> (string, coord) dict \<Rightarrow> real \<Rightarrow> real \<Rightarrow> real \<Rightarrow>
   string \<Rightarrow> real \<Rightarrow> cost_state \<Rightarrow> cost_state option" where
  "assign_customer facility_locs customer_coords facility_capacity cost_per_km units_per_load
       customer demand st =
     (case st of (usage, tcost, asg) \<Rightarrow>
      case map_of customer_coords customer of
        None \<Rightarrow> None
      | Some (customer_lat, customer_lon) \<Rightarrow>
          let distances = map (\<lambda>(fac_lat, fac_lon).
                 haversine_distance customer_lat customer_lon fac_lat fac_lon) facility_locs;
              sorted_facilities = sort_key (\<lambda>k. distances ! k) [0..<length distances]
          in case find (\<lambda>facility. usage ! facility + demand \<le> facility_capacity)
                    sorted_facilities of
               Some facility \<Rightarrow>
                 (case loads_for demand units_per_load of
                    None \<Rightarrow> None
                  | Some loads \<Rightarrow>
                      Some (usage[facility := usage ! facility + demand],
                            tcost + distances ! facility * cost_per_km * of_int loads,
                            AList.update customer (Some facility) asg))
             | None \<Rightarrow>
                 Some (usage, tcost + penalty_factor, AList.update customer None asg))"

fun assign_loop ::
  "coord list \<Rightarrow> (string, coord) dict \<Rightarrow> real \<Rightarrow> real \<Rightarrow> real \<Rightarrow>
   (string, real) dict \<Rightarrow> cost_state \<Rightarrow> cost_state option" where
  "assign_loop fl cc cap cpk upl [] st = Some st"
| "assign_loop fl cc cap cpk upl ((customer, demand) # rest) st =
     (case assign_customer fl cc cap cpk upl customer demand st of
        None \<Rightarrow> None
      | Some st' \<Rightarrow> assign_loop fl cc cap cpk upl rest st')"

text \<open>Fixed costs for used facilities (source lines 57 to 59).\<close>

definition add_fixed_costs :: "real \<Rightarrow> real list \<Rightarrow> real \<Rightarrow> real" where
  "add_fixed_costs fixed_cost usage tcost =
     foldl (\<lambda>t u. if u > 0 then t + fixed_cost else t) tcost usage"

text \<open>The load-balance term (source lines 62 to 65).\<close>

definition add_usage_std :: "real list \<Rightarrow> real \<Rightarrow> real" where
  "add_usage_std usage_values tcost =
     (if length usage_values > 1 \<and> length (remdups usage_values) > 1
      then tcost + np_std usage_values * 100 else tcost)"

definition calculate_total_cost ::
  "coord list \<Rightarrow> string list \<Rightarrow> (string, real) dict \<Rightarrow> (string, coord) dict \<Rightarrow>
   real \<Rightarrow> real \<Rightarrow> real \<Rightarrow> real \<Rightarrow> (real \<times> (string, nat option) dict) option" where
  "calculate_total_cost facility_locs customers demands customer_coords
       facility_capacity fixed_cost cost_per_km units_per_load =
     (case assign_loop facility_locs customer_coords facility_capacity cost_per_km
             units_per_load demands (replicate (length facility_locs) 0, 0, []) of
        None \<Rightarrow> None
      | Some (usage, tcost, asg) \<Rightarrow>
          Some (add_usage_std usage (add_fixed_costs fixed_cost usage tcost), asg))"

subsection \<open>The cost as the specification words it\<close>

text \<open>
  These definitions follow the specification's description of the cost, not the code:
  they read everything off a finished assignment. \<open>facility_demand\<close> is the sum of the
  demands of the customers assigned to a facility; \<open>customer_cost\<close> is what one customer
  adds to the total.
\<close>

definition distance_to :: "coord list \<Rightarrow> (string, coord) dict \<Rightarrow> string \<Rightarrow> nat \<Rightarrow> real" where
  "distance_to fl cc c f =
     (case the (map_of cc c) of (lat, lon) \<Rightarrow>
        haversine_distance lat lon (fst (fl ! f)) (snd (fl ! f)))"

definition customer_cost ::
  "coord list \<Rightarrow> (string, coord) dict \<Rightarrow> real \<Rightarrow> real \<Rightarrow> (string, nat option) dict \<Rightarrow>
   string \<times> real \<Rightarrow> real" where
  "customer_cost fl cc cpk upl asg p =
     (case p of (c, d) \<Rightarrow>
        case map_of asg c of
          Some (Some f) \<Rightarrow> distance_to fl cc c f * cpk * of_int \<lceil>d / upl\<rceil>
        | Some None \<Rightarrow> 1000000
        | None \<Rightarrow> 0)"

definition facility_demand :: "(string, nat option) dict \<Rightarrow> (string, real) dict \<Rightarrow> nat \<Rightarrow> real" where
  "facility_demand asg demands f =
     sum_list (map (\<lambda>(c, d). if map_of asg c = Some (Some f) then d else 0) demands)"

text \<open>
  The invariant of the customer loop after the entries \<open>pre\<close> of the demand dict: the
  usage list holds the demand assigned so far, the assignment has the keys of \<open>pre\<close> in
  order, and the running total is the sum of the customers' costs.
\<close>

definition cost_inv ::
  "coord list \<Rightarrow> (string, coord) dict \<Rightarrow> real \<Rightarrow> real \<Rightarrow> (string, real) dict \<Rightarrow>
   cost_state \<Rightarrow> bool" where
  "cost_inv fl cc cpk upl pre st \<longleftrightarrow>
     (case st of (usage, tcost, asg) \<Rightarrow>
        length usage = length fl \<and> map fst asg = map fst pre \<and>
        (\<forall>f<length fl. usage ! f = facility_demand asg pre f) \<and>
        tcost = sum_list (map (customer_cost fl cc cpk upl asg) pre))"


text \<open>
  Two more invariants of the customer loop. The first bounds a facility's usage by the
  capacity once the capacity is non-negative or some customer sits at the facility; the
  second says that, among non-negative demands, usages stay non-negative and a customer
  demanding more than the capacity is unassigned.
\<close>

definition cap_inv :: "coord list \<Rightarrow> real \<Rightarrow> (string, real) dict \<Rightarrow> cost_state \<Rightarrow> bool" where
  "cap_inv fl cap pre st \<longleftrightarrow>
     (case st of (usage, tcost, asg) \<Rightarrow>
        length usage = length fl \<and> map fst asg = map fst pre \<and>
        (\<forall>f<length fl. 0 \<le> cap \<or> (\<exists>c. map_of asg c = Some (Some f)) \<longrightarrow> usage ! f \<le> cap))"

definition oversize_inv :: "coord list \<Rightarrow> real \<Rightarrow> (string, real) dict \<Rightarrow> cost_state \<Rightarrow> bool" where
  "oversize_inv fl cap pre st \<longleftrightarrow>
     (case st of (usage, tcost, asg) \<Rightarrow>
        length usage = length fl \<and> map fst asg = map fst pre \<and>
        ((\<forall>p\<in>set pre. 0 \<le> snd p) \<longrightarrow>
           (\<forall>f<length fl. 0 \<le> usage ! f) \<and>
           (\<forall>p\<in>set pre. cap < snd p \<longrightarrow> map_of asg (fst p) = Some None)))"

section \<open>The swarm optimizer\<close>

text \<open>
  \<^verbatim>\<open>optimize_facility_locations_pso\<close> reads a customer table, the wall clock and numpy's
  global random generator. The table is a list of rows. The clock and the generator are
  inputs of the model: \<open>time_time n\<close> is what the \<open>n\<close>-th call of \<^verbatim>\<open>time.time()\<close> returns,
  and the draws are given per use, as the unit samples from which numpy computes them
  (\<^verbatim>\<open>uniform(low, high)\<close> is \<open>low + (high - low) * u\<close>, \<^verbatim>\<open>rand\<close> is \<open>u\<close> itself), indexed by
  iteration, particle and facility.
\<close>

record customer_row =
  CustomerID :: string
  Demand :: real
  Latitude :: real
  Longitude :: real

record environment =
  time_time :: "nat \<Rightarrow> real"
  uniform_positions :: "nat \<Rightarrow> nat \<Rightarrow> coord"
  uniform_velocities :: "nat \<Rightarrow> nat \<Rightarrow> coord"
  rand_cognitive :: "nat \<Rightarrow> nat \<Rightarrow> nat \<Rightarrow> coord"
  rand_social :: "nat \<Rightarrow> nat \<Rightarrow> nat \<Rightarrow> coord"

record pso_args =
  customers_df :: "customer_row list"
  n_facilities :: int
  facility_capacity :: real
  fixed_cost :: real
  cost_per_km :: real
  units_per_load :: real
  n_particles :: int
  n_iterations :: int
  max_run_time_seconds :: real
  inertia_weight :: real
  cognitive_coefficient :: real
  social_coefficient :: real

text \<open>A particle is an array of shape \<open>(n_facilities, 2)\<close>: one coordinate pair per facility.\<close>

type_synonym particle = "coord list"

record iteration_record =
  iteration :: nat
  best_score :: real
  time :: real

text \<open>
  \<^verbatim>\<open>global_best_position\<close> is first bound to \<^verbatim>\<open>personal_best_positions[global_best_index]\<close>,
  which in numpy is a view of that row of the array and not a copy of it; later it is
  bound to \<^verbatim>\<open>np.copy(...)\<close>, an array of its own. The model keeps the difference.
\<close>

datatype global_best_ref = View nat | Copy particle

record swarm =
  particles :: "particle list"
  velocities :: "particle list"
  personal_best_positions :: "particle list"
  personal_best_scores :: "real list"
  global_best_position :: global_best_ref
  global_best_score :: real
  current_inertia_weight :: real
  history :: "iteration_record list"
  completed_iterations :: nat
  clock_reads :: nat

text \<open>
  The returned dict. Its data frames are lists of rows: a facility row is
  \<open>(FacilityID, Latitude, Longitude)\<close>, an assignment row is
  \<open>(CustomerID, FacilityID or None, Demand)\<close>.
\<close>

record pso_result =
  status :: string
  total_cost :: real
  facility_locations :: "(string \<times> real \<times> real) list"
  assignments :: "(string \<times> string option \<times> real) list"
  result_history :: "iteration_record list"
  result_completed_iterations :: nat
  total_time :: real

subsection \<open>Library functions used by the optimizer\<close>

text \<open>\<^verbatim>\<open>dict(zip(keys, values))\<close>: a later pair overwrites the value of an earlier equal key.\<close>

definition dict_zip :: "'k list \<Rightarrow> 'v list \<Rightarrow> ('k, 'v) dict" where
  "dict_zip ks vs = foldl (\<lambda>d (k, v). AList.update k v d) [] (zip ks vs)"

text \<open>\<^verbatim>\<open>np.argmin\<close>: the first index of the least entry; it raises on an empty array.\<close>

fun argmin_scan :: "real list \<Rightarrow> nat \<Rightarrow> nat \<Rightarrow> real \<Rightarrow> nat" where
  "argmin_scan [] i best_i best = best_i"
| "argmin_scan (x # xs) i best_i best =
     (if x < best then argmin_scan xs (Suc i) i x else argmin_scan xs (Suc i) best_i best)"

definition np_argmin :: "real list \<Rightarrow> nat option" where
  "np_argmin xs = (case xs of [] \<Rightarrow> None | x # rest \<Rightarrow> Some (argmin_scan rest 1 0 x))"

definition np_clip :: "real \<Rightarrow> real \<Rightarrow> real \<Rightarrow> real" where
  "np_clip x lo hi = min (max x lo) hi"

text \<open>Elementwise arithmetic on coordinate pairs and on arrays of them.\<close>

definition cadd :: "coord \<Rightarrow> coord \<Rightarrow> coord" where
  "cadd a b = (fst a + fst b, snd a + snd b)"

definition csub :: "coord \<Rightarrow> coord \<Rightarrow> coord" where
  "csub a b = (fst a - fst b, snd a - snd b)"

definition cmul :: "coord \<Rightarrow> coord \<Rightarrow> coord" where
  "cmul a b = (fst a * fst b, snd a * snd b)"

definition cscale :: "real \<Rightarrow> coord \<Rightarrow> coord" where
  "cscale k a = (k * fst a, k * snd a)"

definition arr2 :: "(coord \<Rightarrow> coord \<Rightarrow> coord) \<Rightarrow> particle \<Rightarrow> particle \<Rightarrow> particle" where
  "arr2 f xs ys = map (\<lambda>(x, y). f x y) (zip xs ys)"

text \<open>The decimal text of a number, for \<^verbatim>\<open>f'FAC{i+1}'\<close>.\<close>

fun str_nat :: "nat \<Rightarrow> string" where
  "str_nat n = (if n < 10 then [''0123456789'' ! n]
                else str_nat (n div 10) @ [''0123456789'' ! (n mod 10)])"

subsection \<open>Data extracted from the table\<close>

definition pso_customers :: "pso_args \<Rightarrow> string list" where
  "pso_customers a = map CustomerID (customers_df a)"

definition pso_demands :: "pso_args \<Rightarrow> (string, real) dict" where
  "pso_demands a = dict_zip (map CustomerID (customers_df a)) (map Demand (customers_df a))"

definition pso_customer_coords :: "pso_args \<Rightarrow> (string, coord) dict" where
  "pso_customer_coords a =
     dict_zip (map CustomerID (customers_df a))
       (zip (map Latitude (customers_df a)) (map Longitude (customers_df a)))"

definition lat_bounds :: "pso_args \<Rightarrow> real \<times> real" where
  "lat_bounds a = (Min (set (map Latitude (customers_df a))),
                   Max (set (map Latitude (customers_df a))))"

definition lon_bounds :: "pso_args \<Rightarrow> real \<times> real" where
  "lon_bounds a = (Min (set (map Longitude (customers_df a))),
                   Max (set (map Longitude (customers_df a))))"

text \<open>The score of a position: the first component of \<^verbatim>\<open>calculate_total_cost\<close>.\<close>

definition evaluate :: "pso_args \<Rightarrow> particle \<Rightarrow> (real \<times> (string, nat option) dict) option" where
  "evaluate a p =
     calculate_total_cost p (pso_customers a) (pso_demands a) (pso_customer_coords a)
       (facility_capacity a) (fixed_cost a) (cost_per_km a) (units_per_load a)"

definition score_of :: "pso_args \<Rightarrow> particle \<Rightarrow> real option" where
  "score_of a p = map_option fst (evaluate a p)"

subsection \<open>Initialisation (source lines 87 to 124)\<close>

definition initial_particles :: "pso_args \<Rightarrow> environment \<Rightarrow> particle list" where
  "initial_particles a e =
     map (\<lambda>p. map (\<lambda>f. case uniform_positions e p f of (u1, u2) \<Rightarrow>
                 (fst (lat_bounds a) + (snd (lat_bounds a) - fst (lat_bounds a)) * u1,
                  fst (lon_bounds a) + (snd (lon_bounds a) - fst (lon_bounds a)) * u2))
            [0..<nat (n_facilities a)])
       [0..<nat (n_particles a)]"

definition initial_velocities :: "pso_args \<Rightarrow> environment \<Rightarrow> particle list" where
  "initial_velocities a e =
     map (\<lambda>p. map (\<lambda>f. case uniform_velocities e p f of (u1, u2) \<Rightarrow>
                 (- 1 + (1 - (- 1)) * u1, - 1 + (1 - (- 1)) * u2))
            [0..<nat (n_facilities a)])
       [0..<nat (n_particles a)]"

text \<open>
  An empty table has NaN bounds, which \<^verbatim>\<open>np.random.uniform\<close> rejects, as it does a negative
  size; \<^verbatim>\<open>np.argmin\<close> raises when there is no particle. The first clock read is
  \<^verbatim>\<open>start_time\<close>.
\<close>

definition pso_init :: "pso_args \<Rightarrow> environment \<Rightarrow> swarm option" where
  "pso_init a e =
     (if customers_df a = [] \<or> n_particles a < 0 \<or> n_facilities a < 0 then None
      else case those (map (score_of a) (initial_particles a e)) of
        None \<Rightarrow> None
      | Some scores \<Rightarrow>
          (case np_argmin scores of
             None \<Rightarrow> None
           | Some global_best_index \<Rightarrow>
               Some \<lparr>particles = initial_particles a e,
                     velocities = initial_velocities a e,
                     personal_best_positions = initial_particles a e,
                     personal_best_scores = scores,
                     global_best_position = View global_best_index,
                     global_best_score = scores ! global_best_index,
                     current_inertia_weight = inertia_weight a,
                     history = [],
                     completed_iterations = 0,
                     clock_reads = 1\<rparr>))"

subsection \<open>One particle, one sweep, one iteration (source lines 131 to 173)\<close>

definition read_global_best :: "swarm \<Rightarrow> particle" where
  "read_global_best st =
     (case global_best_position st of
        View g \<Rightarrow> personal_best_positions st ! g
      | Copy p \<Rightarrow> p)"

definition clip_coord :: "pso_args \<Rightarrow> coord \<Rightarrow> coord" where
  "clip_coord a c =
     (np_clip (fst c) (fst (lat_bounds a)) (snd (lat_bounds a)),
      np_clip (snd c) (fst (lon_bounds a)) (snd (lon_bounds a)))"

text \<open>
  The body of \<^verbatim>\<open>for i in range(n_particles)\<close>, with the global best position it reads
  as the argument \<open>gbest\<close>.
\<close>

definition update_particle ::
  "pso_args \<Rightarrow> environment \<Rightarrow> nat \<Rightarrow> particle \<Rightarrow> nat \<Rightarrow> swarm \<Rightarrow> swarm option" where
  "update_particle a e it gbest i st =
     (let facilities = [0..<nat (n_facilities a)];
          inertia = map (cscale (current_inertia_weight st)) (velocities st ! i);
          cognitive_component =
            arr2 cmul (map (\<lambda>f. cscale (cognitive_coefficient a) (rand_cognitive e it i f)) facilities)
              (arr2 csub (personal_best_positions st ! i) (particles st ! i));
          social_component =
            arr2 cmul (map (\<lambda>f. cscale (social_coefficient a) (rand_social e it i f)) facilities)
              (arr2 csub gbest (particles st ! i));
          velocity = arr2 cadd (arr2 cadd inertia cognitive_component) social_component;
          moved = arr2 cadd (particles st ! i) velocity;
          clipped = map (clip_coord a) moved
      in case score_of a clipped of
           None \<Rightarrow> None
         | Some score \<Rightarrow>
             let st1 = st\<lparr>velocities := (velocities st)[i := velocity],
                         particles := (particles st)[i := clipped]\<rparr>
             in if score < personal_best_scores st ! i
                then Some (st1\<lparr>personal_best_positions := (personal_best_positions st)[i := clipped],
                               personal_best_scores := (personal_best_scores st)[i := score]\<rparr>)
                else Some st1)"

text \<open>The sweep as the code runs it: each particle reads the global best as it is then.\<close>

fun sweep :: "pso_args \<Rightarrow> environment \<Rightarrow> nat \<Rightarrow> nat list \<Rightarrow> swarm \<Rightarrow> swarm option" where
  "sweep a e it [] st = Some st"
| "sweep a e it (i # rest) st =
     (case update_particle a e it (read_global_best st) i st of
        None \<Rightarrow> None
      | Some st' \<Rightarrow> sweep a e it rest st')"

text \<open>
  The sweep as the specification describes it: every particle reads one snapshot of the
  global best, taken before the sweep.
\<close>

fun sweep_frozen ::
  "pso_args \<Rightarrow> environment \<Rightarrow> nat \<Rightarrow> particle \<Rightarrow> nat list \<Rightarrow> swarm \<Rightarrow> swarm option" where
  "sweep_frozen a e it gbest [] st = Some st"
| "sweep_frozen a e it gbest (i # rest) st =
     (case update_particle a e it gbest i st of
        None \<Rightarrow> None
      | Some st' \<Rightarrow> sweep_frozen a e it gbest rest st')"

definition sweep_snapshot ::
  "pso_args \<Rightarrow> environment \<Rightarrow> nat \<Rightarrow> nat list \<Rightarrow> swarm \<Rightarrow> swarm option" where
  "sweep_snapshot a e it is st = sweep_frozen a e it (read_global_best st) is st"

definition update_global_best :: "swarm \<Rightarrow> swarm option" where
  "update_global_best st =
     (case np_argmin (personal_best_scores st) of
        None \<Rightarrow> None
      | Some best_particle_index \<Rightarrow>
          if personal_best_scores st ! best_particle_index < global_best_score st
          then Some (st\<lparr>global_best_position :=
                           Copy (personal_best_positions st ! best_particle_index),
                         global_best_score := personal_best_scores st ! best_particle_index\<rparr>)
          else Some st)"

definition pso_iteration :: "pso_args \<Rightarrow> environment \<Rightarrow> nat \<Rightarrow> swarm \<Rightarrow> swarm option" where
  "pso_iteration a e it st =
     (case sweep a e it [0..<nat (n_particles a)] st of
        None \<Rightarrow> None
      | Some st1 \<Rightarrow>
          (case update_global_best st1 of
             None \<Rightarrow> None
           | Some st2 \<Rightarrow>
               let st3 = st2\<lparr>current_inertia_weight :=
                               max 0.4 (current_inertia_weight st2 * 0.99)\<rparr>
               in Some (st3\<lparr>history := history st3 @
                               [\<lparr>iteration = it, best_score = global_best_score st3,
                                 time = time_time e (clock_reads st3) - time_time e 0\<rparr>],
                             completed_iterations := it + 1,
                             clock_reads := Suc (clock_reads st3)\<rparr>)))"

subsection \<open>The loop and the result (source lines 126 to 206)\<close>

text \<open>
  \<^verbatim>\<open>for iteration in range(n_iterations)\<close>, with the \<^verbatim>\<open>break\<close> once the elapsed time
  exceeds the budget. Every check reads the clock once.
\<close>

fun pso_loop :: "pso_args \<Rightarrow> environment \<Rightarrow> nat list \<Rightarrow> swarm \<Rightarrow> swarm option" where
  "pso_loop a e [] st = Some st"
| "pso_loop a e (it # rest) st =
     (let now = time_time e (clock_reads st);
          st0 = st\<lparr>clock_reads := Suc (clock_reads st)\<rparr>
      in if now - time_time e 0 > max_run_time_seconds a then Some st0
         else case pso_iteration a e it st0 of
                None \<Rightarrow> None
              | Some st1 \<Rightarrow> pso_loop a e rest st1)"

definition facility_rows :: "particle \<Rightarrow> (string \<times> real \<times> real) list" where
  "facility_rows p =
     map (\<lambda>(i, (lat, lon)). (''FAC'' @ str_nat (i + 1), lat, lon)) (enumerate 0 p)"

definition assignment_rows ::
  "(string, real) dict \<Rightarrow> (string, nat option) dict \<Rightarrow>
   (string \<times> string option \<times> real) list option" where
  "assignment_rows demands final_assignments =
     those (map (\<lambda>(customer, facility).
               case map_of demands customer of
                 None \<Rightarrow> None
               | Some d \<Rightarrow>
                   Some (customer, map_option (\<lambda>f. ''FAC'' @ str_nat (f + 1)) facility, d))
             final_assignments)"

definition optimize_facility_locations_pso :: "pso_args \<Rightarrow> environment \<Rightarrow> pso_result option" where
  "optimize_facility_locations_pso a e =
     (case pso_init a e of
        None \<Rightarrow> None
      | Some st0 \<Rightarrow>
          (case pso_loop a e [0..<nat (n_iterations a)] st0 of
             None \<Rightarrow> None
           | Some st \<Rightarrow>
               (case evaluate a (read_global_best st) of
                  None \<Rightarrow> None
                | Some (cost, final_assignments) \<Rightarrow>
                    (case assignment_rows (pso_demands a) final_assignments of
                       None \<Rightarrow> None
                     | Some rows \<Rightarrow>
                         Some \<lparr>status = ''Optimal'',
                               total_cost = cost,
                               facility_locations = facility_rows (read_global_best st),
                               assignments = rows,
                               result_history = history st,
                               result_completed_iterations = completed_iterations st,
                               total_time = time_time e (clock_reads st) - time_time e 0\<rparr>))))"

subsection \<open>Invariants of the optimizer\<close>

text \<open>
  The history is non-increasing in \<open>best_score\<close> and the current global best score is
  below every recorded one.
\<close>

definition history_inv :: "swarm \<Rightarrow> bool" where
  "history_inv st \<longleftrightarrow>
     sorted_wrt (\<lambda>x y. y \<le> x) (map best_score (history st)) \<and>
     (\<forall>h\<in>set (history st). global_best_score st \<le> best_score h)"

text \<open>
  The customer bounding box, and the contract of the generator for the draws behind the
  initial positions: they are unit samples.
\<close>

definition in_box :: "pso_args \<Rightarrow> coord \<Rightarrow> bool" where
  "in_box a c \<longleftrightarrow>
     fst (lat_bounds a) \<le> fst c \<and> fst c \<le> snd (lat_bounds a) \<and>
     fst (lon_bounds a) \<le> snd c \<and> snd c \<le> snd (lon_bounds a)"

definition unit_draws :: "pso_args \<Rightarrow> environment \<Rightarrow> bool" where
  "unit_draws a e \<longleftrightarrow>
     (\<forall>p<nat (n_particles a). \<forall>f<nat (n_facilities a).
        0 \<le> fst (uniform_positions e p f) \<and> fst (uniform_positions e p f) \<le> 1 \<and>
        0 \<le> snd (uniform_positions e p f) \<and> snd (uniform_positions e p f) \<le> 1)"

definition box_inv :: "pso_args \<Rightarrow> swarm \<Rightarrow> bool" where
  "box_inv a st \<longleftrightarrow>
     length (personal_best_scores st) = length (personal_best_positions st) \<and>
     (\<forall>p\<in>set (personal_best_positions st). \<forall>c\<in>set p. in_box a c) \<and>
     (case global_best_position st of
        View g \<Rightarrow> g < length (personal_best_positions st)
      | Copy p \<Rightarrow> \<forall>c\<in>set p. in_box a c)"

subsection \<open>A small run\<close>

text \<open>
  One customer, one facility, one particle, two iterations, a clock that stands still and
  a generator that always draws one half.
\<close>

definition example_env :: environment where
  "example_env = \<lparr>time_time = (\<lambda>n. 0), uniform_positions = (\<lambda>p f. (1/2, 1/2)),
     uniform_velocities = (\<lambda>p f. (1/2, 1/2)), rand_cognitive = (\<lambda>k p f. (1/2, 1/2)),
     rand_social = (\<lambda>k p f. (1/2, 1/2))\<rparr>"

definition example_args :: pso_args where
  "example_args = \<lparr>customers_df = [\<lparr>CustomerID = ''A'', Demand = 1, Latitude = 0, Longitude = 0\<rparr>],
     n_facilities = 1, facility_capacity = 1, fixed_cost = 500, cost_per_km = 1,
     units_per_load = 1, n_particles = 1, n_iterations = 2, max_run_time_seconds = 300,
     inertia_weight = 0.9, cognitive_coefficient = 2, social_coefficient = 2\<rparr>"

definition example_result :: pso_result where
  "example_result =
     \<lparr>status = ''Optimal'', total_cost = 500, facility_locations = [(''FAC1'', 0, 0)],
      assignments = [(''A'', Some ''FAC1'', 1)],
      result_history = [\<lparr>iteration = 0, best_score = 500, time = 0\<rparr>,
                        \<lparr>iteration = 1, best_score = 500, time = 0\<rparr>],
      result_completed_iterations = 2, total_time = 0\<rparr>"

text \<open>The run's swarm after initialisation and after its two iterations, and the result
  of the same run with no iteration allowed.\<close>

definition example_swarm0 :: swarm where
  "example_swarm0 =
     \<lparr>particles = [[(0, 0)]], velocities = [[(0, 0)]],
      personal_best_positions = [[(0, 0)]], personal_best_scores = [500],
      global_best_position = View 0, global_best_score = 500,
      current_inertia_weight = 0.9, history = [], completed_iterations = 0,
      clock_reads = 1\<rparr>"

definition example_swarm2 :: swarm where
  "example_swarm2 =
     \<lparr>particles = [[(0, 0)]], velocities = [[(0, 0)]],
      personal_best_positions = [[(0, 0)]], personal_best_scores = [500],
      global_best_position = View 0, global_best_score = 500,
      current_inertia_weight = 0.88209,
      history = [\<lparr>iteration = 0, best_score = 500, time = 0\<rparr>,
                 \<lparr>iteration = 1, best_score = 500, time = 0\<rparr>],
      completed_iterations = 2, clock_reads = 5\<rparr>"

definition example_result0 :: pso_result where
  "example_result0 =
     \<lparr>status = ''Optimal'', total_cost = 500, facility_locations = [(''FAC1'', 0, 0)],
      assignments = [(''A'', Some ''FAC1'', 1)],
      result_history = [], result_completed_iterations = 0, total_time = 0\<rparr>"

text \<open>One step of the inertia schedule (source line 164).\<close>

definition decay :: "real \<Rightarrow> real" where
  "decay w = max 0.4 (w * 0.99)"

subsection \<open>A run in which the global best is a view\<close>

text \<open>
  Two customers span the box \<open>[0, 0] \<times> [0, 1]\<close>; only customer A fits the single facility.
  Both particles start at longitude one half, so particle 0 is the first global best; its
  first move is clipped to A's place, which lowers its score. \<open>alias_swarm0\<close> is the swarm
  after initialisation, \<open>alias_swarm1\<close> after particle 0 of the first sweep, and
  \<open>alias_swarm_code\<close> after the whole first sweep as the code runs it.
\<close>


definition alias_args :: pso_args where
  "alias_args =
     \<lparr>customers_df = [\<lparr>CustomerID = ''A'', Demand = 1, Latitude = 0, Longitude = 0\<rparr>,
                      \<lparr>CustomerID = ''B'', Demand = 2, Latitude = 0, Longitude = 1\<rparr>],
      n_facilities = 1, facility_capacity = 1, fixed_cost = 500, cost_per_km = 1,
      units_per_load = 1, n_particles = 2, n_iterations = 1, max_run_time_seconds = 300,
      inertia_weight = 0.9, cognitive_coefficient = 2, social_coefficient = 2\<rparr>"

definition alias_env :: environment where
  "alias_env =
     \<lparr>time_time = (\<lambda>n. 0), uniform_positions = (\<lambda>p f. (1/2, 1/2)),
      uniform_velocities = (\<lambda>p f. if p = 0 then (0, 0) else (1/2, 1/2)),
      rand_cognitive = (\<lambda>k p f. (1/2, 1/2)), rand_social = (\<lambda>k p f. (1/2, 1/2))\<rparr>"

definition alias_swarm0 :: swarm where
  "alias_swarm0 =
     \<lparr>particles = [[(0, 1/2)], [(0, 1/2)]], velocities = [[(- 1, - 1)], [(0, 0)]],
      personal_best_positions = [[(0, 1/2)], [(0, 1/2)]],
      personal_best_scores = [6371 * pi / 360 + 1000500, 6371 * pi / 360 + 1000500],
      global_best_position = View 0, global_best_score = 6371 * pi / 360 + 1000500,
      current_inertia_weight = 0.9, history = [], completed_iterations = 0,
      clock_reads = 1\<rparr>"

definition alias_swarm1 :: swarm where
  "alias_swarm1 =
     alias_swarm0\<lparr>velocities := [[(- 0.9, - 0.9)], [(0, 0)]],
                  particles := [[(0, 0)], [(0, 1/2)]],
                  personal_best_positions := [[(0, 0)], [(0, 1/2)]],
                  personal_best_scores := [1000500, 6371 * pi / 360 + 1000500]\<rparr>"

definition alias_swarm_code :: swarm where
  "alias_swarm_code =
     alias_swarm1\<lparr>velocities := [[(- 0.9, - 0.9)], [(0, - 1/2)]],
                  particles := [[(0, 0)], [(0, 0)]],
                  personal_best_positions := [[(0, 0)], [(0, 0)]],
                  personal_best_scores := [1000500, 1000500]\<rparr>"

section \<open>Properties of the fitness evaluator\<close>


subsection \<open>The customer loop\<close>

lemma assign_customer_SomeE:
  assumes "assign_customer fl cc cap cpk upl c d (usage, tcost, asg) = Some st'"
  obtains (assigned) lat lon f where
      "map_of cc c = Some (lat, lon)" "f < length fl" "usage ! f + d \<le> cap" "upl \<noteq> 0"
      "st' = (usage[f := usage ! f + d],
              tcost + haversine_distance lat lon (fst (fl ! f)) (snd (fl ! f)) * cpk
                        * of_int \<lceil>d / upl\<rceil>,
              AList.update c (Some f) asg)"
  | (unassigned) lat lon where
      "map_of cc c = Some (lat, lon)" "\<forall>f<length fl. \<not> usage ! f + d \<le> cap"
      "st' = (usage, tcost + penalty_factor, AList.update c None asg)"
proof -
  from assms obtain lat lon where cc: "map_of cc c = Some (lat, lon)"
    by (auto simp: assign_customer_def split: option.splits)
  define ds where "ds = map (\<lambda>(fac_lat, fac_lon). haversine_distance lat lon fac_lat fac_lon) fl"
  define sf where "sf = sort_key (\<lambda>k. ds ! k) [0..<length ds]"
  have set_sf: "set sf = {0..<length fl}" by (simp add: sf_def ds_def)
  show thesis
  proof (cases "find (\<lambda>f. usage ! f + d \<le> cap) sf")
    case None
    then have "\<forall>f<length fl. \<not> usage ! f + d \<le> cap"
      using set_sf by (auto simp: find_None_iff)
    moreover have "st' = (usage, tcost + penalty_factor, AList.update c None asg)"
      using assms cc None by (simp add: assign_customer_def ds_def sf_def Let_def)
    ultimately show thesis using cc unassigned by blast
  next
    case (Some f)
    then have f: "f \<in> set sf" "usage ! f + d \<le> cap"
      by (auto simp: find_Some_iff)
    then have flt: "f < length fl" using set_sf by simp
    have dsf: "ds ! f = haversine_distance lat lon (fst (fl ! f)) (snd (fl ! f))"
      using flt by (simp add: ds_def case_prod_beta)
    from assms cc Some have upl: "upl \<noteq> 0"
      by (auto simp: assign_customer_def ds_def sf_def Let_def loads_for_def split: if_splits)
    have "st' = (usage[f := usage ! f + d],
              tcost + haversine_distance lat lon (fst (fl ! f)) (snd (fl ! f)) * cpk
                        * of_int \<lceil>d / upl\<rceil>,
              AList.update c (Some f) asg)"
      using assms cc Some upl dsf
      by (simp add: assign_customer_def ds_def sf_def Let_def loads_for_def)
    then show thesis using cc flt f(2) upl assigned by blast
  qed
qed

lemma assign_loop_invariant_rule:
  assumes run: "assign_loop fl cc cap cpk upl post st = Some st'"
    and dist: "distinct (map fst (pre @ post))"
    and init: "I pre st"
    and step: "\<And>pre c d st st1. I pre st \<Longrightarrow> c \<notin> set (map fst pre) \<Longrightarrow>
        assign_customer fl cc cap cpk upl c d st = Some st1 \<Longrightarrow> I (pre @ [(c, d)]) st1"
  shows "I (pre @ post) st'"
  using run dist init
proof (induction post arbitrary: pre st)
  case Nil
  then show ?case by simp
next
  case (Cons p post)
  obtain c d where p: "p = (c, d)" by (cases p)
  from Cons.prems(1) p obtain st1 where
    s1: "assign_customer fl cc cap cpk upl c d st = Some st1"
    and rest: "assign_loop fl cc cap cpk upl post st1 = Some st'"
    by (auto split: option.splits)
  from Cons.prems(2) p have notin: "c \<notin> set (map fst pre)" by auto
  have I1: "I (pre @ [(c, d)]) st1" using step[OF Cons.prems(3) notin s1] .
  have d1: "distinct (map fst ((pre @ [(c, d)]) @ post))" using Cons.prems(2) p by simp
  from Cons.IH[OF rest d1 I1] show ?case using p by simp
qed

lemma map_of_update_other:
  "c' \<noteq> c \<Longrightarrow> map_of (AList.update c v asg) c' = map_of asg c'"
  by (simp add: update_conv')

lemma map_of_update_same: "map_of (AList.update c v asg) c = Some v"
  by (simp add: update_conv')

lemma keys_update_fresh:
  "c \<notin> set (map fst asg) \<Longrightarrow> map fst (AList.update c v asg) = map fst asg @ [c]"
  by (simp add: update_keys)

lemma customer_cost_update_fresh:
  assumes "c \<notin> set (map fst pre)"
  shows "map (customer_cost fl cc cpk upl (AList.update c v asg)) pre =
         map (customer_cost fl cc cpk upl asg) pre"
proof (rule map_cong[OF refl])
  fix p assume "p \<in> set pre"
  then have "fst p \<noteq> c" using assms by auto
  then show "customer_cost fl cc cpk upl (AList.update c v asg) p = customer_cost fl cc cpk upl asg p"
    by (cases p) (simp add: customer_cost_def map_of_update_other)
qed

lemma facility_demand_update_fresh:
  assumes "c \<notin> set (map fst pre)"
  shows "facility_demand (AList.update c v asg) pre f = facility_demand asg pre f"
proof -
  have "map (\<lambda>(c', d). if map_of (AList.update c v asg) c' = Some (Some f) then d else 0) pre =
        map (\<lambda>(c', d). if map_of asg c' = Some (Some f) then d else 0) pre"
  proof (rule map_cong[OF refl])
    fix p assume "p \<in> set pre"
    then have "fst p \<noteq> c" using assms by auto
    then show "(case p of (c', d) \<Rightarrow> if map_of (AList.update c v asg) c' = Some (Some f) then d else 0) =
               (case p of (c', d) \<Rightarrow> if map_of asg c' = Some (Some f) then d else 0)"
      by (cases p) (simp add: map_of_update_other)
  qed
  then show ?thesis unfolding facility_demand_def by (rule arg_cong)
qed

lemma facility_demand_snoc:
  "facility_demand asg (pre @ [(c, d)]) f =
     facility_demand asg pre f + (if map_of asg c = Some (Some f) then d else 0)"
  by (simp add: facility_demand_def)

lemma cost_inv_step:
  assumes inv: "cost_inv fl cc cpk upl pre st"
    and fresh: "c \<notin> set (map fst pre)"
    and step: "assign_customer fl cc cap cpk upl c d st = Some st1"
  shows "cost_inv fl cc cpk upl (pre @ [(c, d)]) st1"
proof -
  obtain usage tcost asg where st: "st = (usage, tcost, asg)" by (cases st)
  from inv st have len: "length usage = length fl" and keys: "map fst asg = map fst pre"
    and us: "\<forall>f<length fl. usage ! f = facility_demand asg pre f"
    and tc: "tcost = sum_list (map (customer_cost fl cc cpk upl asg) pre)"
    by (auto simp: cost_inv_def)
  have fresh': "c \<notin> set (map fst asg)" using fresh keys by simp
  from step[unfolded st] show ?thesis
  proof (cases rule: assign_customer_SomeE)
    case (assigned lat lon f)
    let ?asg = "AList.update c (Some f) asg"
    have "customer_cost fl cc cpk upl ?asg (c, d) =
          haversine_distance lat lon (fst (fl ! f)) (snd (fl ! f)) * cpk * of_int \<lceil>d / upl\<rceil>"
      using assigned(1) by (simp add: customer_cost_def map_of_update_same distance_to_def)
    moreover have "\<forall>g<length fl. (usage[f := usage ! f + d]) ! g = facility_demand ?asg (pre @ [(c, d)]) g"
      using us len assigned(2)
      by (auto simp: facility_demand_snoc facility_demand_update_fresh[OF fresh] map_of_update_same nth_list_update)
    ultimately show ?thesis
      using assigned(5) len keys tc fresh'
      by (simp add: cost_inv_def customer_cost_update_fresh[OF fresh] keys_update_fresh)
  next
    case (unassigned lat lon)
    let ?asg = "AList.update c None asg"
    have "customer_cost fl cc cpk upl ?asg (c, d) = penalty_factor"
      by (simp add: customer_cost_def map_of_update_same penalty_factor_def)
    moreover have "\<forall>g<length fl. usage ! g = facility_demand ?asg (pre @ [(c, d)]) g"
      using us by (auto simp: facility_demand_snoc facility_demand_update_fresh[OF fresh] map_of_update_same)
    ultimately show ?thesis
      using unassigned(3) len keys tc fresh'
      by (simp add: cost_inv_def customer_cost_update_fresh[OF fresh] keys_update_fresh)
  qed
qed

lemma assign_loop_cost_inv:
  assumes "assign_loop fl cc cap cpk upl demands (replicate (length fl) 0, 0, []) = Some st'"
    and "distinct (map fst demands)"
  shows "cost_inv fl cc cpk upl demands st'"
proof -
  have init: "cost_inv fl cc cpk upl [] (replicate (length fl) 0, 0, [])"
    by (simp add: cost_inv_def facility_demand_def)
  from assign_loop_invariant_rule[where pre="[]" and I="cost_inv fl cc cpk upl", OF assms(1) _ init]
  show ?thesis using assms(2) cost_inv_step by auto
qed

lemma haversine_same [simp]: "haversine_distance lat lon lat lon = 0"
  by (simp add: haversine_distance_def Let_def)

text \<open>The definitions a concrete evaluation unfolds.\<close>

lemmas cost_eval = calculate_total_cost_def assign_customer_def loads_for_def
  add_fixed_costs_def add_usage_std_def penalty_factor_def

subsection \<open>The closing terms\<close>






lemma calculate_total_cost_SomeD:
  assumes "calculate_total_cost fl customers demands cc cap fixed cpk upl = Some (cost, asg)"
  obtains usage tcost where
    "assign_loop fl cc cap cpk upl demands (replicate (length fl) 0, 0, []) = Some (usage, tcost, asg)"
    "cost = add_usage_std usage (add_fixed_costs fixed usage tcost)"
  using assms by (auto simp: calculate_total_cost_def split: option.splits)



subsection \<open>Capacity\<close>

lemma cap_inv_step:
  assumes inv: "cap_inv fl cap pre st"
    and fresh: "c \<notin> set (map fst pre)"
    and step: "assign_customer fl cc cap cpk upl c d st = Some st1"
  shows "cap_inv fl cap (pre @ [(c, d)]) st1"
proof -
  obtain usage tcost asg where st: "st = (usage, tcost, asg)" by (cases st)
  from inv st have len: "length usage = length fl" and keys: "map fst asg = map fst pre"
    and us: "\<And>f. f < length fl \<Longrightarrow> 0 \<le> cap \<or> (\<exists>c. map_of asg c = Some (Some f)) \<Longrightarrow> usage ! f \<le> cap"
    by (auto simp: cap_inv_def)
  have fresh': "c \<notin> set (map fst asg)" using fresh keys by simp
  then have absent: "map_of asg c = None" by (simp add: map_of_eq_None_iff)
  from step[unfolded st] show ?thesis
  proof (cases rule: assign_customer_SomeE)
    case (assigned lat lon f)
    have "(usage[f := usage ! f + d]) ! g \<le> cap"
      if g: "g < length fl" and h: "0 \<le> cap \<or> (\<exists>c'. map_of (AList.update c (Some f) asg) c' = Some (Some g))" for g
    proof (cases "g = f")
      case True
      then show ?thesis using assigned(2,3) len by simp
    next
      case False
      from h have "0 \<le> cap \<or> (\<exists>c'. map_of asg c' = Some (Some g))"
      proof
        assume "0 \<le> cap" then show ?thesis by simp
      next
        assume "\<exists>c'. map_of (AList.update c (Some f) asg) c' = Some (Some g)"
        then obtain c' where c': "map_of (AList.update c (Some f) asg) c' = Some (Some g)" by blast
        then have "c' \<noteq> c" using False by (auto simp: map_of_update_same)
        then show ?thesis using c' by (auto simp: map_of_update_other)
      qed
      then show ?thesis using us[OF g] False by simp
    qed
    then show ?thesis
      using assigned(5) len keys fresh' by (simp add: cap_inv_def keys_update_fresh)
  next
    case (unassigned lat lon)
    have "usage ! g \<le> cap"
      if g: "g < length fl" and h: "0 \<le> cap \<or> (\<exists>c'. map_of (AList.update c None asg) c' = Some (Some g))" for g
    proof -
      from h have "0 \<le> cap \<or> (\<exists>c'. map_of asg c' = Some (Some g))"
      proof
        assume "0 \<le> cap" then show ?thesis by simp
      next
        assume "\<exists>c'. map_of (AList.update c None asg) c' = Some (Some g)"
        then obtain c' where c': "map_of (AList.update c None asg) c' = Some (Some g)" by blast
        then have "c' \<noteq> c" by (auto simp: map_of_update_same)
        then show ?thesis using c' by (auto simp: map_of_update_other)
      qed
      then show ?thesis using us[OF g] by simp
    qed
    then show ?thesis
      using unassigned(3) len keys fresh' by (simp add: cap_inv_def keys_update_fresh)
  qed
qed

lemma assign_loop_cap_inv:
  assumes "assign_loop fl cc cap cpk upl demands (replicate (length fl) 0, 0, []) = Some st'"
    and "distinct (map fst demands)"
  shows "cap_inv fl cap demands st'"
proof -
  have init: "cap_inv fl cap [] (replicate (length fl) 0, 0, [])"
    by (simp add: cap_inv_def)
  from assign_loop_invariant_rule[where pre="[]" and I="cap_inv fl cap", OF assms(1) _ init]
  show ?thesis using assms(2) cap_inv_step by auto
qed

text \<open>
  C3, as amended. In every assignment the evaluator returns, the demands of the customers
  assigned to a facility sum to at most \<open>facility_capacity\<close>, for every facility that has
  a customer, and for every facility at all when the capacity is non-negative. Demands
  may have any sign. (A facility without customers has sum 0, which a negative capacity
  does not bound.)
\<close>

theorem facility_demand_within_capacity:
  assumes "calculate_total_cost fl customers demands cc cap fixed cpk upl = Some (cost, asg)"
    and "distinct (map fst demands)"
    and "f < length fl"
    and "0 \<le> cap \<or> (\<exists>c. map_of asg c = Some (Some f))"
  shows "facility_demand asg demands f \<le> cap"
proof -
  from assms(1) obtain usage tcost where
    run: "assign_loop fl cc cap cpk upl demands (replicate (length fl) 0, 0, []) = Some (usage, tcost, asg)"
    by (rule calculate_total_cost_SomeD)
  have "cost_inv fl cc cpk upl demands (usage, tcost, asg)"
    using assign_loop_cost_inv[OF run assms(2)] .
  then have "usage ! f = facility_demand asg demands f"
    using assms(3) by (simp add: cost_inv_def)
  moreover have "usage ! f \<le> cap"
    using assign_loop_cap_inv[OF run assms(2)] assms(3,4) by (auto simp: cap_inv_def)
  ultimately show ?thesis by simp
qed

text \<open>Two facilities of capacity 2 and two customers of demand 2: one customer each.\<close>

theorem facility_demand_within_capacity_witness:
  "calculate_total_cost [(0,0),(0,0)] [''A'', ''B''] [(''A'', 2), (''B'', 2)]
      [(''A'', (0,0)), (''B'', (0,0))] 2 500 1 100
     = Some (1000, [(''A'', Some 0), (''B'', Some 1)]) \<and>
   distinct (map fst [(''A'', 2::real), (''B'', 2)]) \<and>
   (0::nat) < length [(0::real,0::real),(0,0)] \<and>
   (0 \<le> (2::real) \<or> (\<exists>c. map_of [(''A'', Some 0), (''B'', Some (1::nat))] c = Some (Some 0))) \<and>
   facility_demand [(''A'', Some 0), (''B'', Some 1)] [(''A'', 2), (''B'', 2)] 0 \<le> 2"
proof -
  have run: "calculate_total_cost [(0,0),(0,0)] [''A'', ''B''] [(''A'', 2), (''B'', 2)]
      [(''A'', (0,0)), (''B'', (0,0))] 2 500 1 100
     = Some (1000, [(''A'', Some 0), (''B'', Some 1)])"
    by (simp add: cost_eval np_std_def np_mean_def upt_rec)
  have d: "distinct (map fst [(''A'', 2::real), (''B'', 2)])" by simp
  have f: "(0::nat) < length [(0::real,0::real),(0,0)]" by simp
  have h: "0 \<le> (2::real) \<or> (\<exists>c. map_of [(''A'', Some 0), (''B'', Some (1::nat))] c = Some (Some 0))"
    by simp
  from facility_demand_within_capacity[OF run d f h] run d f h show ?thesis by blast
qed

text \<open>
  The claim as first stated fails at capacity \<open>-1\<close>: a customer of demand 0 is left
  unassigned, and the single facility's sum, 0, exceeds the capacity.
\<close>

theorem negative_capacity_counterexample:
  "calculate_total_cost [(0,0)] [''A''] [(''A'', 0)] [(''A'', (0,0))] (-1) 0 1 1
     = Some (1000000, [(''A'', None)]) \<and>
   \<not> facility_demand [(''A'', None)] [(''A'', 0)] 0 \<le> -1"
  by (simp add: cost_eval facility_demand_def)

lemma oversize_inv_step:
  assumes inv: "oversize_inv fl cap pre st"
    and fresh: "c \<notin> set (map fst pre)"
    and step: "assign_customer fl cc cap cpk upl c d st = Some st1"
  shows "oversize_inv fl cap (pre @ [(c, d)]) st1"
proof -
  obtain usage tcost asg where st: "st = (usage, tcost, asg)" by (cases st)
  from inv st have len: "length usage = length fl" and keys: "map fst asg = map fst pre"
    by (auto simp: oversize_inv_def)
  have fresh': "c \<notin> set (map fst asg)" using fresh keys by simp
  have old: "map_of (AList.update c v asg) (fst p) = map_of asg (fst p)" if "p \<in> set pre" for p v
    using that fresh by (intro map_of_update_other) auto
  from step[unfolded st] show ?thesis
  proof (cases rule: assign_customer_SomeE)
    case (assigned lat lon f)
    have "(\<forall>g<length fl. 0 \<le> (usage[f := usage ! f + d]) ! g) \<and>
          (\<forall>p\<in>set (pre @ [(c, d)]). cap < snd p \<longrightarrow>
              map_of (AList.update c (Some f) asg) (fst p) = Some None)"
      if nn: "\<forall>p\<in>set (pre @ [(c, d)]). 0 \<le> snd p"
    proof -
      from nn have d0: "0 \<le> d" and nnpre: "\<forall>p\<in>set pre. 0 \<le> snd p" by auto
      from inv st nnpre have u0: "\<forall>g<length fl. 0 \<le> usage ! g"
        and ov: "\<forall>p\<in>set pre. cap < snd p \<longrightarrow> map_of asg (fst p) = Some None"
        by (auto simp: oversize_inv_def)
      have "d \<le> cap" using assigned(2,3) u0 by fastforce
      moreover have "\<forall>g<length fl. 0 \<le> (usage[f := usage ! f + d]) ! g"
        using u0 d0 len assigned(2) by (auto simp: nth_list_update)
      ultimately show ?thesis using ov old by auto
    qed
    then show ?thesis
      using assigned(5) len keys fresh' by (simp add: oversize_inv_def keys_update_fresh)
  next
    case (unassigned lat lon)
    have "(\<forall>g<length fl. 0 \<le> usage ! g) \<and>
          (\<forall>p\<in>set (pre @ [(c, d)]). cap < snd p \<longrightarrow>
              map_of (AList.update c None asg) (fst p) = Some None)"
      if nn: "\<forall>p\<in>set (pre @ [(c, d)]). 0 \<le> snd p"
    proof -
      from nn have nnpre: "\<forall>p\<in>set pre. 0 \<le> snd p" by auto
      from inv st nnpre have u0: "\<forall>g<length fl. 0 \<le> usage ! g"
        and ov: "\<forall>p\<in>set pre. cap < snd p \<longrightarrow> map_of asg (fst p) = Some None"
        by (auto simp: oversize_inv_def)
      show ?thesis using u0 ov old by (auto simp: map_of_update_same)
    qed
    then show ?thesis
      using unassigned(3) len keys fresh' by (simp add: oversize_inv_def keys_update_fresh)
  qed
qed

lemma assign_loop_oversize_inv:
  assumes "assign_loop fl cc cap cpk upl demands (replicate (length fl) 0, 0, []) = Some st'"
    and "distinct (map fst demands)"
  shows "oversize_inv fl cap demands st'"
proof -
  have init: "oversize_inv fl cap [] (replicate (length fl) 0, 0, [])"
    by (simp add: oversize_inv_def)
  from assign_loop_invariant_rule[where pre="[]" and I="oversize_inv fl cap", OF assms(1) _ init]
  show ?thesis using assms(2) oversize_inv_step by auto
qed

lemma two_oversized_customers:
  assumes "a \<noteq> b" "map_of cc a \<noteq> None" "map_of cc b \<noteq> None"
  shows "calculate_total_cost [p] customers [(a, 40), (b, 40)] cc 30 fixed cpk upl
           = Some (2000000, [(a, None), (b, None)])"
  using assms by (auto simp: cost_eval)

text \<open>
  C5, as amended. With one facility of capacity 30 and two customers of demand 40 each,
  every evaluation leaves both customers unassigned and costs exactly 2,000,000 (two
  penalties, no fixed cost, no balance term). In general, when all demands are
  non-negative, a customer whose demand exceeds the capacity is unassigned and adds the
  penalty of 1,000,000 to the total.
\<close>

theorem oversized_demand_unassigned:
  "(a \<noteq> b \<and> map_of cc a \<noteq> None \<and> map_of cc b \<noteq> None \<longrightarrow>
      calculate_total_cost [p] customers [(a, 40), (b, 40)] cc 30 fixed' cpk' upl'
        = Some (2000000, [(a, None), (b, None)])) \<and>
   (calculate_total_cost fl customers demands cc cap fixed cpk upl = Some (cost, asg) \<and>
    distinct (map fst demands) \<and> (\<forall>p\<in>set demands. 0 \<le> snd p) \<and>
    (c, d) \<in> set demands \<and> cap < d \<longrightarrow>
      map_of asg c = Some None \<and> customer_cost fl cc cpk upl asg (c, d) = 1000000)"
proof (intro conjI impI)
  assume "a \<noteq> b \<and> map_of cc a \<noteq> None \<and> map_of cc b \<noteq> None"
  then show "calculate_total_cost [p] customers [(a, 40), (b, 40)] cc 30 fixed' cpk' upl'
        = Some (2000000, [(a, None), (b, None)])"
    using two_oversized_customers by blast
next
  assume h: "calculate_total_cost fl customers demands cc cap fixed cpk upl = Some (cost, asg) \<and>
    distinct (map fst demands) \<and> (\<forall>p\<in>set demands. 0 \<le> snd p) \<and>
    (c, d) \<in> set demands \<and> cap < d"
  then obtain usage tcost where
    run: "assign_loop fl cc cap cpk upl demands (replicate (length fl) 0, 0, []) = Some (usage, tcost, asg)"
    by (meson calculate_total_cost_SomeD)
  from h have dist: "distinct (map fst demands)" by simp
  have "oversize_inv fl cap demands (usage, tcost, asg)"
    using assign_loop_oversize_inv[OF run dist] .
  with h have "\<forall>p\<in>set demands. cap < snd p \<longrightarrow> map_of asg (fst p) = Some None"
    by (simp add: oversize_inv_def)
  with h show un: "map_of asg c = Some None" by fastforce
  then show "customer_cost fl cc cpk upl asg (c, d) = 1000000"
    by (simp add: customer_cost_def)
qed

text \<open>The scenario at a concrete place, and its second customer as the oversized one.\<close>

theorem oversized_demand_unassigned_witness:
  "(''A'' \<noteq> ''B'' \<and> map_of [(''A'', (0::real, 0::real)), (''B'', (0, 1))] ''A'' \<noteq> None \<and>
      map_of [(''A'', (0::real, 0::real)), (''B'', (0, 1))] ''B'' \<noteq> None) \<and>
   calculate_total_cost [(0, 1/2)] [''A'', ''B''] [(''A'', 40), (''B'', 40)]
      [(''A'', (0, 0)), (''B'', (0, 1))] 30 500 1 100 = Some (2000000, [(''A'', None), (''B'', None)]) \<and>
   distinct (map fst [(''A'', 40::real), (''B'', 40)]) \<and>
   list_all (\<lambda>p. 0 \<le> snd p) [(''A'', 40::real), (''B'', 40)] \<and>
   (''B'', 40) \<in> set [(''A'', 40::real), (''B'', 40)] \<and> (30::real) < 40 \<and>
   map_of [(''A'', None :: nat option), (''B'', None)] ''B'' = Some None \<and>
   customer_cost [(0, 1/2)] [(''A'', (0, 0)), (''B'', (0, 1))] 1 100
      [(''A'', None), (''B'', None)] (''B'', 40) = 1000000"
proof -
  let ?cc = "[(''A'', (0::real, 0::real)), (''B'', (0, 1))]"
  let ?dm = "[(''A'', 40::real), (''B'', 40)]"
  have h1: "''A'' \<noteq> ''B'' \<and> map_of ?cc ''A'' \<noteq> None \<and> map_of ?cc ''B'' \<noteq> None" by simp
  note inst = oversized_demand_unassigned[of "''A''" "''B''" ?cc "(0, 1/2)" "[''A'', ''B'']" 500 1 100
      "[(0, 1/2)]" ?dm 30 500 1 100 2000000 "[(''A'', None), (''B'', None)]" "''B''" 40]
  from inst h1 have run: "calculate_total_cost [(0, 1/2)] [''A'', ''B''] ?dm ?cc 30 500 1 100
      = Some (2000000, [(''A'', None), (''B'', None)])" by blast
  have h2: "distinct (map fst ?dm) \<and> (\<forall>p\<in>set ?dm. 0 \<le> snd p) \<and> (''B'', 40) \<in> set ?dm \<and> (30::real) < 40"
    by simp
  from inst run h2 have "map_of [(''A'', None :: nat option), (''B'', None)] ''B'' = Some None \<and>
   customer_cost [(0, 1/2)] ?cc 1 100 [(''A'', None), (''B'', None)] (''B'', 40) = 1000000"
    by blast
  with h1 run h2 show ?thesis by (simp add: list_all_iff)
qed

text \<open>
  In the scenario no evaluation leaves exactly one customer unassigned: the returned
  assignment has two.
\<close>

theorem exactly_one_unassigned_counterexample:
  "\<not> (\<exists>cost asg. calculate_total_cost [(0, 0)] [''A'', ''B''] [(''A'', 40), (''B'', 40)]
          [(''A'', (0, 0)), (''B'', (0, 0))] 30 500 1 100 = Some (cost, asg) \<and>
        length (filter (\<lambda>p. snd p = None) asg) = 1)"
  by (simp add: cost_eval)

section \<open>Properties of the swarm optimizer\<close>

subsection \<open>What each step returns and what it leaves alone\<close>

lemma update_particle_SomeE:
  assumes "update_particle a e it gb i st = Some st'"
  obtains vel moved score where
    "score_of a (map (clip_coord a) moved) = Some score"
    "st' = (if score < personal_best_scores st ! i
            then st\<lparr>velocities := (velocities st)[i := vel],
                    particles := (particles st)[i := map (clip_coord a) moved],
                    personal_best_positions :=
                      (personal_best_positions st)[i := map (clip_coord a) moved],
                    personal_best_scores := (personal_best_scores st)[i := score]\<rparr>
            else st\<lparr>velocities := (velocities st)[i := vel],
                    particles := (particles st)[i := map (clip_coord a) moved]\<rparr>)"
  using assms unfolding update_particle_def Let_def
  by (auto split: option.splits if_splits)

lemma update_particle_frame:
  assumes "update_particle a e it gb i st = Some st'"
  shows "history st' = history st" "global_best_score st' = global_best_score st"
    "current_inertia_weight st' = current_inertia_weight st"
    "completed_iterations st' = completed_iterations st"
    "clock_reads st' = clock_reads st"
    "global_best_position st' = global_best_position st"
    "length (personal_best_positions st') = length (personal_best_positions st)"
    "length (personal_best_scores st') = length (personal_best_scores st)"
  using assms by (auto elim!: update_particle_SomeE split: if_splits)

lemma sweep_frame:
  assumes "sweep a e it is st = Some st'"
  shows "history st' = history st \<and> global_best_score st' = global_best_score st \<and>
    current_inertia_weight st' = current_inertia_weight st \<and>
    completed_iterations st' = completed_iterations st \<and>
    clock_reads st' = clock_reads st \<and>
    global_best_position st' = global_best_position st \<and>
    length (personal_best_positions st') = length (personal_best_positions st) \<and>
    length (personal_best_scores st') = length (personal_best_scores st)"
  using assms
proof (induction "is" arbitrary: st)
  case Nil
  then show ?case by simp
next
  case (Cons i rest)
  from Cons.prems obtain st1 where
    s1: "update_particle a e it (read_global_best st) i st = Some st1"
    and r: "sweep a e it rest st1 = Some st'"
    by (auto split: option.splits)
  from Cons.IH[OF r] update_particle_frame[OF s1] show ?case by simp
qed

lemma argmin_scan_bound:
  "best_i < i \<Longrightarrow> argmin_scan xs i best_i best < i + length xs"
  by (induction xs i best_i best rule: argmin_scan.induct) auto

lemma np_argmin_less: "np_argmin xs = Some g \<Longrightarrow> g < length xs"
  using argmin_scan_bound[of 0 1] by (auto simp: np_argmin_def split: list.splits)

lemma update_global_best_SomeE:
  assumes "update_global_best st = Some st'"
  obtains (improved) b where "np_argmin (personal_best_scores st) = Some b"
      "personal_best_scores st ! b < global_best_score st"
      "st' = st\<lparr>global_best_position := Copy (personal_best_positions st ! b),
                 global_best_score := personal_best_scores st ! b\<rparr>"
  | (kept) b where "np_argmin (personal_best_scores st) = Some b"
      "\<not> personal_best_scores st ! b < global_best_score st" "st' = st"
  using assms unfolding update_global_best_def
  by (auto split: option.splits if_splits)

lemma update_global_best_frame:
  assumes "update_global_best st = Some st'"
  shows "history st' = history st" "global_best_score st' \<le> global_best_score st"
    "current_inertia_weight st' = current_inertia_weight st"
    "completed_iterations st' = completed_iterations st"
    "clock_reads st' = clock_reads st"
    "personal_best_positions st' = personal_best_positions st"
    "personal_best_scores st' = personal_best_scores st"
  using assms by (auto elim!: update_global_best_SomeE)

lemma pso_iteration_SomeE:
  assumes "pso_iteration a e it st = Some st'"
  obtains st1 st2 where
    "sweep a e it [0..<nat (n_particles a)] st = Some st1"
    "update_global_best st1 = Some st2"
    "st' = st2\<lparr>current_inertia_weight := max 0.4 (current_inertia_weight st2 * 0.99),
               history := history st2 @
                  [\<lparr>iteration = it, best_score = global_best_score st2,
                    time = time_time e (clock_reads st2) - time_time e 0\<rparr>],
               completed_iterations := it + 1,
               clock_reads := Suc (clock_reads st2)\<rparr>"
  using assms unfolding pso_iteration_def Let_def
  by (auto split: option.splits)

lemma pso_iteration_frame:
  assumes "pso_iteration a e it st = Some st'"
  shows "history st' = history st @
           [\<lparr>iteration = it, best_score = global_best_score st',
             time = time_time e (clock_reads st) - time_time e 0\<rparr>]"
    "global_best_score st' \<le> global_best_score st"
    "current_inertia_weight st' = max 0.4 (current_inertia_weight st * 0.99)"
    "completed_iterations st' = it + 1"
    "clock_reads st' = Suc (clock_reads st)"
proof -
  from assms obtain st1 st2 where
    sw: "sweep a e it [0..<nat (n_particles a)] st = Some st1"
    and ug: "update_global_best st1 = Some st2"
    and st': "st' = st2\<lparr>current_inertia_weight := max 0.4 (current_inertia_weight st2 * 0.99),
               history := history st2 @
                  [\<lparr>iteration = it, best_score = global_best_score st2,
                    time = time_time e (clock_reads st2) - time_time e 0\<rparr>],
               completed_iterations := it + 1,
               clock_reads := Suc (clock_reads st2)\<rparr>"
    by (rule pso_iteration_SomeE)
  note f1 = sweep_frame[OF sw] and f2 = update_global_best_frame[OF ug]
  show "history st' = history st @
           [\<lparr>iteration = it, best_score = global_best_score st',
             time = time_time e (clock_reads st) - time_time e 0\<rparr>]"
    using st' f1 f2 by simp
  show "global_best_score st' \<le> global_best_score st" using st' f1 f2 by simp
  show "current_inertia_weight st' = max 0.4 (current_inertia_weight st * 0.99)"
    using st' f1 f2 by simp
  show "completed_iterations st' = it + 1" using st' by simp
  show "clock_reads st' = Suc (clock_reads st)" using st' f1 f2 by simp
qed

subsection \<open>The small run, evaluated\<close>

lemmas pso_eval = pso_customers_def pso_demands_def pso_customer_coords_def dict_zip_def
  lat_bounds_def lon_bounds_def evaluate_def score_of_def initial_particles_def
  initial_velocities_def np_argmin_def np_clip_def cadd_def csub_def cmul_def cscale_def
  arr2_def read_global_best_def clip_coord_def update_particle_def update_global_best_def
  pso_iteration_def facility_rows_def assignment_rows_def


lemma example_run:
  "optimize_facility_locations_pso example_args example_env = Some example_result"
  by (simp add: optimize_facility_locations_pso_def pso_init_def example_args_def
      example_env_def example_result_def pso_eval cost_eval upt_rec Let_def)

subsection \<open>The recorded best score\<close>

lemma pso_iteration_history_inv:
  assumes "pso_iteration a e it st = Some st'" "history_inv st"
  shows "history_inv st'"
proof -
  note f = pso_iteration_frame[OF assms(1)]
  from assms(2) have s: "sorted_wrt (\<lambda>x y. y \<le> x) (map best_score (history st))"
    and b: "\<forall>h\<in>set (history st). global_best_score st \<le> best_score h"
    by (auto simp: history_inv_def)
  have b': "\<forall>h\<in>set (history st). global_best_score st' \<le> best_score h"
    using b f(2) by fastforce
  show ?thesis
    unfolding history_inv_def f(1) using s b' by (simp add: sorted_wrt_append)
qed

lemma pso_loop_history_inv:
  assumes "pso_loop a e its st = Some st'" "history_inv st"
  shows "history_inv st'"
  using assms
proof (induction its arbitrary: st)
  case Nil
  then show ?case by simp
next
  case (Cons it rest)
  let ?st0 = "st\<lparr>clock_reads := Suc (clock_reads st)\<rparr>"
  have inv0: "history_inv ?st0" using Cons.prems(2) by (simp add: history_inv_def)
  show ?case
  proof (cases "time_time e (clock_reads st) - time_time e 0 > max_run_time_seconds a")
    case True
    with Cons.prems(1) have "st' = ?st0" by (simp add: Let_def)
    with inv0 show ?thesis by simp
  next
    case False
    with Cons.prems(1) obtain st1 where
      i: "pso_iteration a e it ?st0 = Some st1" and r: "pso_loop a e rest st1 = Some st'"
      by (auto simp: Let_def split: option.splits)
    from Cons.IH[OF r pso_iteration_history_inv[OF i inv0]] show ?thesis .
  qed
qed

lemma pso_init_SomeE:
  assumes "pso_init a e = Some st"
  obtains scores g where
    "customers_df a \<noteq> []" "0 \<le> n_particles a" "0 \<le> n_facilities a"
    "those (map (score_of a) (initial_particles a e)) = Some scores"
    "np_argmin scores = Some g"
    "st = \<lparr>particles = initial_particles a e,
                     velocities = initial_velocities a e,
                     personal_best_positions = initial_particles a e,
                     personal_best_scores = scores,
                     global_best_position = View g,
                     global_best_score = scores ! g,
                     current_inertia_weight = inertia_weight a,
                     history = [],
                     completed_iterations = 0,
                     clock_reads = 1\<rparr>"
  using assms unfolding pso_init_def
  by (auto split: option.splits if_splits)

lemma optimize_SomeE:
  assumes "optimize_facility_locations_pso a e = Some r"
  obtains st0 st cost final_assignments rows where
    "pso_init a e = Some st0"
    "pso_loop a e [0..<nat (n_iterations a)] st0 = Some st"
    "evaluate a (read_global_best st) = Some (cost, final_assignments)"
    "assignment_rows (pso_demands a) final_assignments = Some rows"
    "r = \<lparr>status = ''Optimal'',
                               total_cost = cost,
                               facility_locations = facility_rows (read_global_best st),
                               assignments = rows,
                               result_history = history st,
                               result_completed_iterations = completed_iterations st,
                               total_time = time_time e (clock_reads st) - time_time e 0\<rparr>"
  using assms unfolding optimize_facility_locations_pso_def
  by (auto split: option.splits)

lemma pso_loop_iteration_numbers:
  assumes "pso_loop a e [k..<n] st = Some st'"
    and "map iteration (history st) = [0..<k]"
  shows "\<exists>m. map iteration (history st') = [0..<m]"
  using assms
proof (induction "n - k" arbitrary: k st)
  case 0
  then have "[k..<n] = []" by simp
  with "0.prems" show ?case by auto
next
  case (Suc d)
  then have upt: "[k..<n] = k # [Suc k..<n]" by (simp add: upt_conv_Cons)
  let ?st0 = "st\<lparr>clock_reads := Suc (clock_reads st)\<rparr>"
  show ?case
  proof (cases "time_time e (clock_reads st) - time_time e 0 > max_run_time_seconds a")
    case True
    with Suc.prems(1) upt have "st' = ?st0" by (simp add: Let_def)
    then show ?thesis using Suc.prems(2) by auto
  next
    case False
    with Suc.prems(1) upt obtain st1 where
      i: "pso_iteration a e k ?st0 = Some st1"
      and r: "pso_loop a e [Suc k..<n] st1 = Some st'"
      by (auto simp: Let_def split: option.splits)
    have "map iteration (history st1) = [0..<Suc k]"
      using pso_iteration_frame(1)[OF i] Suc.prems(2) by simp
    moreover have "d = n - Suc k" using Suc.hyps(2) by simp
    ultimately show ?thesis using Suc.hyps(1) r by blast
  qed
qed

lemma upt_nth_eq:
  assumes "map f xs = [0..<m]" "k < length xs"
  shows "f (xs ! k) = k"
proof -
  have "length xs = m" using assms(1) by (metis length_map length_upt diff_zero)
  have "f (xs ! k) = map f xs ! k" using assms(2) by simp
  also have "\<dots> = [0..<m] ! k" using assms(1) by simp
  also have "\<dots> = k" using assms(2) \<open>length xs = m\<close> by simp
  finally show ?thesis .
qed

text \<open>
  C1. In every run that returns, the history entries are numbered by iteration, and the
  \<open>best_score\<close> recorded for iteration \<open>k + 1\<close> is at most the one recorded for iteration \<open>k\<close>:
  the global best score is only ever replaced by a strictly lower one, and each record
  stores its current value. Nothing is assumed of the customers, the facilities or the
  capacity.
\<close>

theorem best_score_history_non_increasing:
  assumes "optimize_facility_locations_pso a e = Some r"
    and "Suc k < length (result_history r)"
  shows "iteration (result_history r ! k) = k \<and>
         iteration (result_history r ! Suc k) = Suc k \<and>
         best_score (result_history r ! Suc k) \<le> best_score (result_history r ! k)"
proof -
  from assms(1) obtain st0 st where
    i: "pso_init a e = Some st0" and l: "pso_loop a e [0..<nat (n_iterations a)] st0 = Some st"
    and h: "result_history r = history st"
    by (auto elim!: optimize_SomeE)
  have h0: "history st0 = []" using i by (auto elim!: pso_init_SomeE)
  have "history_inv st0" using h0 by (simp add: history_inv_def)
  then have "history_inv st" using pso_loop_history_inv[OF l] by simp
  then have "sorted_wrt (\<lambda>x y. y \<le> x) (map best_score (history st))"
    by (simp add: history_inv_def)
  then have "map best_score (history st) ! Suc k \<le> map best_score (history st) ! k"
    using assms(2) h by (intro sorted_wrt_nth_less[where P="\<lambda>x y. y \<le> x"]) auto
  then have le: "best_score (result_history r ! Suc k) \<le> best_score (result_history r ! k)"
    using assms(2) h by simp
  from pso_loop_iteration_numbers[OF l] h0 obtain m where
    "map iteration (history st) = [0..<m]" by auto
  then have "iteration (history st ! k) = k" "iteration (history st ! Suc k) = Suc k"
    using assms(2) h by (auto intro: upt_nth_eq)
  with le h show ?thesis by simp
qed

theorem best_score_history_non_increasing_witness:
  "optimize_facility_locations_pso example_args example_env = Some example_result \<and>
   Suc 0 < length (result_history example_result) \<and>
   iteration (result_history example_result ! Suc 0) = Suc 0 \<and>
   best_score (result_history example_result ! Suc 0)
     \<le> best_score (result_history example_result ! 0)"
proof -
  have len: "Suc 0 < length (result_history example_result)"
    by (simp add: example_result_def)
  from best_score_history_non_increasing[OF example_run len] example_run len
  show ?thesis by blast
qed


subsection \<open>The bounding box\<close>

lemma bounds_ordered:
  assumes "customers_df a \<noteq> []"
  shows "fst (lat_bounds a) \<le> snd (lat_bounds a)" "fst (lon_bounds a) \<le> snd (lon_bounds a)"
proof -
  have "set (map Latitude (customers_df a)) \<noteq> {}" "set (map Longitude (customers_df a)) \<noteq> {}"
    using assms by auto
  then show "fst (lat_bounds a) \<le> snd (lat_bounds a)" "fst (lon_bounds a) \<le> snd (lon_bounds a)"
    by (simp_all add: lat_bounds_def lon_bounds_def)
qed

lemma np_clip_bounds: "lo \<le> hi \<Longrightarrow> lo \<le> np_clip x lo hi \<and> np_clip x lo hi \<le> hi"
  by (auto simp: np_clip_def)

lemma clip_coord_in_box: "customers_df a \<noteq> [] \<Longrightarrow> in_box a (clip_coord a c)"
  using bounds_ordered[of a] by (simp add: in_box_def clip_coord_def np_clip_bounds)

lemma affine_in_range:
  fixes lo hi u :: real
  assumes "lo \<le> hi" "0 \<le> u" "u \<le> 1"
  shows "lo \<le> lo + (hi - lo) * u" "lo + (hi - lo) * u \<le> hi"
proof -
  have "0 \<le> (hi - lo) * u" using assms by simp
  then show "lo \<le> lo + (hi - lo) * u" by simp
  have "(hi - lo) * u \<le> (hi - lo) * 1" using assms by (intro mult_left_mono) auto
  then show "lo + (hi - lo) * u \<le> hi" by simp
qed

lemma initial_particles_in_box:
  assumes "customers_df a \<noteq> []" "unit_draws a e"
    and "p \<in> set (initial_particles a e)" "c \<in> set p"
  shows "in_box a c"
proof -
  from assms(3,4) obtain i f where i: "i < nat (n_particles a)" and f: "f < nat (n_facilities a)"
    and c: "c = (case uniform_positions e i f of (u1, u2) \<Rightarrow>
                 (fst (lat_bounds a) + (snd (lat_bounds a) - fst (lat_bounds a)) * u1,
                  fst (lon_bounds a) + (snd (lon_bounds a) - fst (lon_bounds a)) * u2))"
    by (auto simp: initial_particles_def)
  obtain u1 u2 where u: "uniform_positions e i f = (u1, u2)" by (cases "uniform_positions e i f")
  from assms(2) i f have "0 \<le> fst (uniform_positions e i f) \<and> fst (uniform_positions e i f) \<le> 1 \<and>
        0 \<le> snd (uniform_positions e i f) \<and> snd (uniform_positions e i f) \<le> 1"
    unfolding unit_draws_def by blast
  with u have "0 \<le> u1" "u1 \<le> 1" "0 \<le> u2" "u2 \<le> 1" by simp_all
  with c u bounds_ordered[OF assms(1)] show ?thesis
    by (simp add: in_box_def affine_in_range)
qed

lemma those_length: "those xs = Some ys \<Longrightarrow> length ys = length xs"
  by (induction xs arbitrary: ys) (auto split: option.splits)

lemma pso_init_box_inv:
  assumes "pso_init a e = Some st" "unit_draws a e"
  shows "box_inv a st"
proof -
  from assms(1) show ?thesis
  proof (rule pso_init_SomeE)
    fix scores g
    assume df: "customers_df a \<noteq> []"
      and sc: "those (map (score_of a) (initial_particles a e)) = Some scores"
      and g: "np_argmin scores = Some g"
      and st: "st = \<lparr>particles = initial_particles a e,
                     velocities = initial_velocities a e,
                     personal_best_positions = initial_particles a e,
                     personal_best_scores = scores,
                     global_best_position = View g,
                     global_best_score = scores ! g,
                     current_inertia_weight = inertia_weight a,
                     history = [],
                     completed_iterations = 0,
                     clock_reads = 1\<rparr>"
    have len: "length scores = length (initial_particles a e)"
      using those_length[OF sc] by simp
    moreover have "g < length scores" using np_argmin_less[OF g] .
    ultimately show ?thesis
      using st initial_particles_in_box[OF df assms(2)] by (auto simp: box_inv_def)
  qed
qed

lemma update_particle_box_inv:
  assumes "update_particle a e it gb i st = Some st'" "box_inv a st" "customers_df a \<noteq> []"
  shows "box_inv a st'"
proof -
  from assms(1) obtain vel moved score where
    st': "st' = (if score < personal_best_scores st ! i
            then st\<lparr>velocities := (velocities st)[i := vel],
                    particles := (particles st)[i := map (clip_coord a) moved],
                    personal_best_positions :=
                      (personal_best_positions st)[i := map (clip_coord a) moved],
                    personal_best_scores := (personal_best_scores st)[i := score]\<rparr>
            else st\<lparr>velocities := (velocities st)[i := vel],
                    particles := (particles st)[i := map (clip_coord a) moved]\<rparr>)"
    by (rule update_particle_SomeE)
  have new: "\<forall>c\<in>set (map (clip_coord a) moved). in_box a c"
    using clip_coord_in_box[OF assms(3)] by simp
  have upd: "\<forall>p\<in>set ((personal_best_positions st)[i := map (clip_coord a) moved]). \<forall>c\<in>set p. in_box a c"
  proof
    fix p assume "p \<in> set ((personal_best_positions st)[i := map (clip_coord a) moved])"
    then have "p = map (clip_coord a) moved \<or> p \<in> set (personal_best_positions st)"
      using set_update_subset_insert by fastforce
    then show "\<forall>c\<in>set p. in_box a c" using new assms(2) by (auto simp: box_inv_def)
  qed
  show ?thesis
  proof (cases "score < personal_best_scores st ! i")
    case True
    then show ?thesis using st' assms(2) upd by (auto simp: box_inv_def split: global_best_ref.splits)
  next
    case False
    then show ?thesis using st' assms(2) by (auto simp: box_inv_def split: global_best_ref.splits)
  qed
qed

lemma sweep_box_inv:
  assumes "sweep a e it is st = Some st'" "box_inv a st" "customers_df a \<noteq> []"
  shows "box_inv a st'"
  using assms(1,2)
proof (induction "is" arbitrary: st)
  case Nil
  then show ?case by simp
next
  case (Cons i rest)
  from Cons.prems(1) obtain st1 where
    s1: "update_particle a e it (read_global_best st) i st = Some st1"
    and r: "sweep a e it rest st1 = Some st'"
    by (auto split: option.splits)
  from Cons.IH[OF r update_particle_box_inv[OF s1 Cons.prems(2) assms(3)]] show ?case .
qed

lemma update_global_best_box_inv:
  assumes "update_global_best st = Some st'" "box_inv a st"
  shows "box_inv a st'"
  using assms(1)
proof (cases rule: update_global_best_SomeE)
  case (improved b)
  have "b < length (personal_best_positions st)"
    using np_argmin_less[OF improved(1)] assms(2) by (simp add: box_inv_def)
  then have "personal_best_positions st ! b \<in> set (personal_best_positions st)" by simp
  then show ?thesis using improved(3) assms(2) by (auto simp: box_inv_def)
next
  case (kept b)
  then show ?thesis using assms(2) by simp
qed

lemma pso_iteration_box_inv:
  assumes "pso_iteration a e it st = Some st'" "box_inv a st" "customers_df a \<noteq> []"
  shows "box_inv a st'"
proof -
  from assms(1) obtain st1 st2 where
    sw: "sweep a e it [0..<nat (n_particles a)] st = Some st1"
    and ug: "update_global_best st1 = Some st2"
    and st': "st' = st2\<lparr>current_inertia_weight := max 0.4 (current_inertia_weight st2 * 0.99),
               history := history st2 @
                  [\<lparr>iteration = it, best_score = global_best_score st2,
                    time = time_time e (clock_reads st2) - time_time e 0\<rparr>],
               completed_iterations := it + 1,
               clock_reads := Suc (clock_reads st2)\<rparr>"
    by (rule pso_iteration_SomeE)
  have "box_inv a st2"
    using update_global_best_box_inv[OF ug sweep_box_inv[OF sw assms(2,3)]] .
  then show ?thesis using st' by (auto simp: box_inv_def split: global_best_ref.splits)
qed

lemma pso_loop_box_inv:
  assumes "pso_loop a e its st = Some st'" "box_inv a st" "customers_df a \<noteq> []"
  shows "box_inv a st'"
  using assms(1,2)
proof (induction its arbitrary: st)
  case Nil
  then show ?case by simp
next
  case (Cons it rest)
  let ?st0 = "st\<lparr>clock_reads := Suc (clock_reads st)\<rparr>"
  have inv0: "box_inv a ?st0" using Cons.prems(2)
    by (auto simp: box_inv_def split: global_best_ref.splits)
  show ?case
  proof (cases "time_time e (clock_reads st) - time_time e 0 > max_run_time_seconds a")
    case True
    with Cons.prems(1) have "st' = ?st0" by (simp add: Let_def)
    with inv0 show ?thesis by simp
  next
    case False
    with Cons.prems(1) obtain st1 where
      i: "pso_iteration a e it ?st0 = Some st1" and r: "pso_loop a e rest st1 = Some st'"
      by (auto simp: Let_def split: option.splits)
    from Cons.IH[OF r pso_iteration_box_inv[OF i inv0 assms(3)]] show ?thesis .
  qed
qed

lemma box_inv_read_global_best:
  assumes "box_inv a st" "c \<in> set (read_global_best st)"
  shows "in_box a c"
  using assms by (auto simp: box_inv_def read_global_best_def split: global_best_ref.splits)

lemma facility_rows_coord:
  "(fid, lat, lon) \<in> set (facility_rows p) \<Longrightarrow> (lat, lon) \<in> set p"
proof -
  assume "(fid, lat, lon) \<in> set (facility_rows p)"
  then obtain i where "i < length p" "p ! i = (lat, lon)"
    by (auto simp: facility_rows_def in_set_enumerate_eq simp del: str_nat.simps)
  then show ?thesis by (metis nth_mem)
qed

text \<open>
  C6. Every facility row of a returned result lies in the customer bounding box,
  inclusive, provided the draws behind the initial positions are unit samples, as
  \<^verbatim>\<open>np.random.uniform\<close> promises: the initial particles are then inside the box, every
  later position is clipped into it, and the global best is always one of those.
\<close>

theorem facility_locations_in_bounding_box:
  assumes "optimize_facility_locations_pso a e = Some r"
    and "unit_draws a e"
    and "(fid, lat, lon) \<in> set (facility_locations r)"
  shows "Min (set (map Latitude (customers_df a))) \<le> lat \<and>
         lat \<le> Max (set (map Latitude (customers_df a))) \<and>
         Min (set (map Longitude (customers_df a))) \<le> lon \<and>
         lon \<le> Max (set (map Longitude (customers_df a)))"
proof -
  from assms(1) obtain st0 st where
    i: "pso_init a e = Some st0" and l: "pso_loop a e [0..<nat (n_iterations a)] st0 = Some st"
    and fl: "facility_locations r = facility_rows (read_global_best st)"
    by (auto elim!: optimize_SomeE)
  have df: "customers_df a \<noteq> []" using i by (auto elim!: pso_init_SomeE)
  have "box_inv a st" using pso_loop_box_inv[OF l pso_init_box_inv[OF i assms(2)] df] .
  moreover have "(lat, lon) \<in> set (read_global_best st)"
    using assms(3) fl facility_rows_coord by simp
  ultimately have "in_box a (lat, lon)" by (rule box_inv_read_global_best)
  then show ?thesis by (simp add: in_box_def lat_bounds_def lon_bounds_def)
qed

theorem facility_locations_in_bounding_box_witness:
  "optimize_facility_locations_pso example_args example_env = Some example_result \<and>
   unit_draws example_args example_env \<and>
   (''FAC1'', 0, 0) \<in> set (facility_locations example_result) \<and>
   Min (set (map Latitude (customers_df example_args))) \<le> 0 \<and>
   0 \<le> Max (set (map Latitude (customers_df example_args))) \<and>
   Min (set (map Longitude (customers_df example_args))) \<le> 0 \<and>
   0 \<le> Max (set (map Longitude (customers_df example_args)))"
proof -
  have u: "unit_draws example_args example_env"
    by (simp add: unit_draws_def example_env_def)
  have m: "(''FAC1'', 0, 0) \<in> set (facility_locations example_result)"
    by (simp add: example_result_def)
  from facility_locations_in_bounding_box[OF example_run u m] example_run u m
  show ?thesis by blast
qed

subsection \<open>When the optimizer returns\<close>



























subsection \<open>The loop: inertia and the iteration count\<close>

lemma example_init: "pso_init example_args example_env = Some example_swarm0"
  by (simp add: pso_init_def example_args_def example_env_def example_swarm0_def
      pso_eval cost_eval)

lemma example_loop:
  "pso_loop example_args example_env [0..<nat (n_iterations example_args)] example_swarm0
     = Some example_swarm2"
  by (simp add: example_args_def example_env_def example_swarm0_def example_swarm2_def
      pso_eval cost_eval upt_rec Let_def)

lemma example_run0:
  "optimize_facility_locations_pso (example_args\<lparr>n_iterations := 0\<rparr>) example_env
     = Some example_result0"
  by (simp add: optimize_facility_locations_pso_def pso_init_def example_args_def
      example_env_def example_result0_def pso_eval cost_eval upt_rec Let_def)


lemma decay_funpow:
  "(decay ^^ m) w = (if m = 0 then w else max 0.4 (w * 0.99 ^ m))"
proof (induction m)
  case 0
  then show ?case by simp
next
  case (Suc m)
  show ?case
  proof (cases "m = 0")
    case True
    then show ?thesis by (simp add: decay_def)
  next
    case False
    have "(decay ^^ Suc m) w = decay ((decay ^^ m) w)" by simp
    also have "\<dots> = decay (max 0.4 (w * 0.99 ^ m))" using Suc False by simp
    also have "\<dots> = max 0.4 (max 0.4 (w * 0.99 ^ m) * 0.99)" by (simp only: decay_def)
    also have "\<dots> = max 0.4 (w * 0.99 ^ Suc m)"
      by (auto simp: max_def algebra_simps)
    finally show ?thesis by simp
  qed
qed

lemma decay_funpow_le:
  assumes "0.4 \<le> w"
  shows "(decay ^^ m) w \<le> w"
proof (cases "m = 0")
  case True
  then show ?thesis by simp
next
  case False
  have "(0.99::real) ^ m \<le> 1" by (rule power_le_one) simp_all
  then have "w * 0.99 ^ m \<le> w * 1" using assms by (intro mult_left_mono) auto
  with assms False show ?thesis by (simp add: decay_funpow)
qed

lemma pso_loop_upt:
  assumes "pso_loop a e [k..<n] st = Some st'" "completed_iterations st = k"
  shows "\<exists>m. completed_iterations st' = k + m \<and> k + m \<le> max k n \<and>
             current_inertia_weight st' = (decay ^^ m) (current_inertia_weight st) \<and>
             length (history st') = length (history st) + m"
  using assms
proof (induction "n - k" arbitrary: k st)
  case 0
  then have "[k..<n] = []" by simp
  with "0.prems" have "st' = st" by simp
  then show ?case using "0.prems"(2) by (intro exI[of _ 0]) simp
next
  case (Suc d)
  then have kn: "k < n" by simp
  then have upt: "[k..<n] = k # [Suc k..<n]" by (simp add: upt_conv_Cons)
  let ?st0 = "st\<lparr>clock_reads := Suc (clock_reads st)\<rparr>"
  show ?case
  proof (cases "time_time e (clock_reads st) - time_time e 0 > max_run_time_seconds a")
    case True
    with Suc.prems(1) upt have "st' = ?st0" by (simp add: Let_def)
    then show ?thesis using Suc.prems(2) by (intro exI[of _ 0]) simp
  next
    case False
    with Suc.prems(1) upt obtain st1 where
      i: "pso_iteration a e k ?st0 = Some st1"
      and r: "pso_loop a e [Suc k..<n] st1 = Some st'"
      by (auto simp: Let_def split: option.splits)
    note f = pso_iteration_frame[OF i]
    have c1: "completed_iterations st1 = Suc k" using f(4) by simp
    have d: "d = n - Suc k" using Suc.hyps(2) by simp
    from Suc.hyps(1)[OF d r c1] obtain m where
      m: "completed_iterations st' = Suc k + m" "Suc k + m \<le> max (Suc k) n"
         "current_inertia_weight st' = (decay ^^ m) (current_inertia_weight st1)"
         "length (history st') = length (history st1) + m"
      by blast
    have "current_inertia_weight st1 = decay (current_inertia_weight st)"
      using f(3) by (simp add: decay_def)
    then have "current_inertia_weight st' = (decay ^^ Suc m) (current_inertia_weight st)"
      using m(3) by (simp add: funpow_swap1)
    moreover have "length (history st') = length (history st) + Suc m"
      using m(4) f(1) by simp
    moreover have "k + Suc m \<le> max k n" using m(2) kn by simp
    ultimately show ?thesis using m(1) by (intro exI[of _ "Suc m"]) simp
  qed
qed

text \<open>
  C9, as amended. Along the loop the working inertia weight is the start value with the
  step \<open>w \<mapsto> max 0.4 (w * 0.99)\<close> applied once per completed iteration, and it does not
  increase when it starts at 0.4 or more. From initialisation, after \<open>k\<close> completed
  iterations it is \<open>max 0.4 (inertia_weight * 0.99 ^ k)\<close> provided \<open>k > 0\<close> or
  \<open>inertia_weight \<ge> 0.4\<close>; with \<open>k = 0\<close> it is \<open>inertia_weight\<close> itself; and it is at least 0.4
  once an iteration has completed.
\<close>

theorem inertia_weight_decay:
  "(pso_loop a e [k..<n] s = Some s' \<and> completed_iterations s = k \<longrightarrow>
      k \<le> completed_iterations s' \<and>
      current_inertia_weight s' =
        ((\<lambda>w. max 0.4 (w * 0.99)) ^^ (completed_iterations s' - k)) (current_inertia_weight s) \<and>
      (0.4 \<le> current_inertia_weight s \<longrightarrow>
         current_inertia_weight s' \<le> current_inertia_weight s)) \<and>
   (pso_init a e = Some st0 \<and> pso_loop a e [0..<nat (n_iterations a)] st0 = Some st \<longrightarrow>
      (0 < completed_iterations st \<or> 0.4 \<le> inertia_weight a \<longrightarrow>
         current_inertia_weight st = max 0.4 (inertia_weight a * 0.99 ^ completed_iterations st)) \<and>
      (completed_iterations st = 0 \<longrightarrow> current_inertia_weight st = inertia_weight a) \<and>
      (0 < completed_iterations st \<longrightarrow> 0.4 \<le> current_inertia_weight st))"
proof (intro conjI impI)
  assume h: "pso_loop a e [k..<n] s = Some s' \<and> completed_iterations s = k"
  then obtain m where m: "completed_iterations s' = k + m"
    "current_inertia_weight s' = (decay ^^ m) (current_inertia_weight s)"
    using pso_loop_upt[of a e k n s s'] by blast
  have dec: "decay = (\<lambda>w. max 0.4 (w * 0.99))" by (rule ext) (simp add: decay_def)
  show "k \<le> completed_iterations s'" using m(1) by simp
  show "current_inertia_weight s' =
        ((\<lambda>w. max 0.4 (w * 0.99)) ^^ (completed_iterations s' - k)) (current_inertia_weight s)"
    using m by (simp add: dec)
  assume "0.4 \<le> current_inertia_weight s"
  then show "current_inertia_weight s' \<le> current_inertia_weight s"
    using m(2) decay_funpow_le by simp
next
  assume h: "pso_init a e = Some st0 \<and> pso_loop a e [0..<nat (n_iterations a)] st0 = Some st"
  then have i: "current_inertia_weight st0 = inertia_weight a" "completed_iterations st0 = 0"
    by (auto elim!: pso_init_SomeE)
  from h i(2) obtain m where m: "completed_iterations st = m"
    "current_inertia_weight st = (decay ^^ m) (current_inertia_weight st0)"
    using pso_loop_upt[of a e 0 "nat (n_iterations a)" st0 st] by auto
  have cf: "current_inertia_weight st =
      (if completed_iterations st = 0 then inertia_weight a
       else max 0.4 (inertia_weight a * 0.99 ^ completed_iterations st))"
    using m i(1) by (simp add: decay_funpow)
  show "completed_iterations st = 0 \<Longrightarrow> current_inertia_weight st = inertia_weight a"
    using cf by simp
  show "0 < completed_iterations st \<Longrightarrow> 0.4 \<le> current_inertia_weight st"
    using cf by simp
  assume "0 < completed_iterations st \<or> 0.4 \<le> inertia_weight a"
  then show "current_inertia_weight st = max 0.4 (inertia_weight a * 0.99 ^ completed_iterations st)"
    using cf by auto
qed

theorem inertia_weight_decay_witness:
  "pso_init example_args example_env = Some example_swarm0 \<and>
   pso_loop example_args example_env [0..<nat (n_iterations example_args)] example_swarm0
     = Some example_swarm2 \<and>
   completed_iterations example_swarm0 = 0 \<and>
   0 < completed_iterations example_swarm2 \<and>
   0.4 \<le> current_inertia_weight example_swarm0 \<and>
   current_inertia_weight example_swarm2 \<le> current_inertia_weight example_swarm0 \<and>
   current_inertia_weight example_swarm2 =
     max 0.4 (inertia_weight example_args * 0.99 ^ completed_iterations example_swarm2) \<and>
   0.4 \<le> current_inertia_weight example_swarm2"
proof -
  have c0: "completed_iterations example_swarm0 = 0" by (simp add: example_swarm0_def)
  have c2: "0 < completed_iterations example_swarm2" by (simp add: example_swarm2_def)
  have w0: "0.4 \<le> current_inertia_weight example_swarm0" by (simp add: example_swarm0_def)
  from inertia_weight_decay[of example_args example_env 0 "nat (n_iterations example_args)"
      example_swarm0 example_swarm2 example_swarm0 example_swarm2]
    example_init example_loop c0 c2 w0
  show ?thesis by blast
qed

text \<open>
  Before any iteration completes the weight is the configured one: with
  \<open>inertia_weight = 0.3\<close> and no iteration it is 0.3, not \<open>max 0.4 (0.3 * 0.99 ^ 0) = 0.4\<close>.
\<close>

theorem inertia_weight_decay_counterexample:
  "\<exists>st0 st.
     pso_init (example_args\<lparr>n_iterations := 0, inertia_weight := 0.3\<rparr>) example_env = Some st0 \<and>
     pso_loop (example_args\<lparr>n_iterations := 0, inertia_weight := 0.3\<rparr>) example_env
       [0..<nat (n_iterations (example_args\<lparr>n_iterations := 0, inertia_weight := 0.3\<rparr>))] st0
       = Some st \<and>
     completed_iterations st = 0 \<and>
     current_inertia_weight st \<noteq>
       max 0.4 (inertia_weight (example_args\<lparr>n_iterations := 0, inertia_weight := 0.3\<rparr>)
                  * 0.99 ^ completed_iterations st)"
  by (simp add: pso_init_def example_args_def example_env_def pso_eval cost_eval)


lemma argmin_scan_least:
  assumes "best_i < length pre" "pre ! best_i = best" "\<forall>x\<in>set pre. best \<le> x" "i = length pre"
  shows "argmin_scan xs i best_i best < length (pre @ xs) \<and>
         (\<forall>x\<in>set (pre @ xs). (pre @ xs) ! argmin_scan xs i best_i best \<le> x)"
  using assms
proof (induction xs arbitrary: pre i best_i best)
  case Nil
  then show ?case by simp
next
  case (Cons x xs)
  show ?case
  proof (cases "x < best")
    case True
    have "argmin_scan xs (Suc i) i x < length ((pre @ [x]) @ xs) \<and>
          (\<forall>y\<in>set ((pre @ [x]) @ xs). ((pre @ [x]) @ xs) ! argmin_scan xs (Suc i) i x \<le> y)"
    proof (rule Cons.IH)
      show "i < length (pre @ [x])" using Cons.prems(4) by simp
      show "(pre @ [x]) ! i = x" using Cons.prems(4) by simp
      show "\<forall>y\<in>set (pre @ [x]). x \<le> y" using Cons.prems(3) True by fastforce
      show "Suc i = length (pre @ [x])" using Cons.prems(4) by simp
    qed
    with True show ?thesis by simp
  next
    case False
    have "argmin_scan xs (Suc i) best_i best < length ((pre @ [x]) @ xs) \<and>
          (\<forall>y\<in>set ((pre @ [x]) @ xs). ((pre @ [x]) @ xs) ! argmin_scan xs (Suc i) best_i best \<le> y)"
    proof (rule Cons.IH)
      show "best_i < length (pre @ [x])" using Cons.prems(1) by simp
      show "(pre @ [x]) ! best_i = best" using Cons.prems(1,2) by (simp add: nth_append)
      show "\<forall>y\<in>set (pre @ [x]). best \<le> y" using Cons.prems(3) False by auto
      show "Suc i = length (pre @ [x])" using Cons.prems(4) by simp
    qed
    with False show ?thesis by simp
  qed
qed

lemma np_argmin_Min:
  assumes "np_argmin xs = Some g"
  shows "xs ! g = Min (set xs)"
proof -
  from assms obtain x rest where xs: "xs = x # rest" and g: "g = argmin_scan rest 1 0 x"
    by (auto simp: np_argmin_def split: list.splits)
  have "g < length ([x] @ rest) \<and> (\<forall>y\<in>set ([x] @ rest). ([x] @ rest) ! g \<le> y)"
    unfolding g by (rule argmin_scan_least) simp_all
  then have lt: "g < length xs" and le: "\<forall>y\<in>set xs. xs ! g \<le> y" using xs by simp_all
  have "Min (set xs) = xs ! g"
    using lt le by (intro Min_eqI) auto
  then show ?thesis by simp
qed

lemma those_nth:
  "those xs = Some ys \<Longrightarrow> i < length xs \<Longrightarrow> xs ! i = Some (ys ! i)"
proof (induction xs arbitrary: ys i)
  case Nil
  then show ?case by simp
next
  case (Cons x xs)
  then show ?case by (cases i) (auto split: option.splits)
qed

lemma pso_loop_stops_at_once:
  assumes "pso_loop a e [0..<nat n] st0 = Some st" "clock_reads st0 = 1"
    and "n \<le> 0 \<or> max_run_time_seconds a < time_time e 1 - time_time e 0"
  shows "\<exists>c. st = st0\<lparr>clock_reads := c\<rparr>"
proof (cases "n \<le> 0")
  case True
  then have "[0..<nat n] = []" by simp
  with assms(1) have "st = st0" by simp
  then show ?thesis by (intro exI[of _ "clock_reads st0"]) simp
next
  case False
  then have upt: "[0..<nat n] = 0 # [Suc 0..<nat n]" by (simp add: upt_conv_Cons)
  from False assms(3) have "max_run_time_seconds a < time_time e 1 - time_time e 0" by simp
  with assms(1,2) upt have "st = st0\<lparr>clock_reads := Suc (clock_reads st0)\<rparr>"
    by (simp add: Let_def)
  then show ?thesis by blast
qed

text \<open>
  C8, as amended. When \<open>n_iterations \<le> 0\<close>, or the first check of the clock finds the budget
  exceeded, a returned result has \<open>completed_iterations = 0\<close>, an empty history, the least
  of the initial scores as its total cost and the first initial particle with that score
  as its facilities. And whenever \<open>n_iterations \<ge> 0\<close>, a returned result has
  \<open>completed_iterations \<le> n_iterations\<close>.
\<close>

theorem no_iteration_returns_initial_best:
  "(optimize_facility_locations_pso a e = Some r \<and>
    (n_iterations a \<le> 0 \<or> max_run_time_seconds a < time_time e 1 - time_time e 0) \<longrightarrow>
      result_completed_iterations r = 0 \<and> result_history r = [] \<and>
      (\<exists>scores g. those (map (score_of a) (initial_particles a e)) = Some scores \<and>
          np_argmin scores = Some g \<and> g < length (initial_particles a e) \<and>
          scores ! g = Min (set scores) \<and>
          total_cost r = Min (set scores) \<and>
          facility_locations r = facility_rows (initial_particles a e ! g))) \<and>
   (optimize_facility_locations_pso a e = Some r \<and> 0 \<le> n_iterations a \<longrightarrow>
      int (result_completed_iterations r) \<le> n_iterations a)"
proof (intro conjI impI)
  assume h: "optimize_facility_locations_pso a e = Some r \<and>
    (n_iterations a \<le> 0 \<or> max_run_time_seconds a < time_time e 1 - time_time e 0)"
  then obtain st0 st cost asg where
    i: "pso_init a e = Some st0" and l: "pso_loop a e [0..<nat (n_iterations a)] st0 = Some st"
    and ev: "evaluate a (read_global_best st) = Some (cost, asg)"
    and r: "total_cost r = cost" "facility_locations r = facility_rows (read_global_best st)"
      "result_history r = history st" "result_completed_iterations r = completed_iterations st"
    by (auto elim!: optimize_SomeE)
  from i obtain scores g where
    sc: "those (map (score_of a) (initial_particles a e)) = Some scores"
    and g: "np_argmin scores = Some g"
    and st0: "st0 = \<lparr>particles = initial_particles a e,
                     velocities = initial_velocities a e,
                     personal_best_positions = initial_particles a e,
                     personal_best_scores = scores,
                     global_best_position = View g,
                     global_best_score = scores ! g,
                     current_inertia_weight = inertia_weight a,
                     history = [],
                     completed_iterations = 0,
                     clock_reads = 1\<rparr>"
    by (rule pso_init_SomeE)
  have "clock_reads st0 = 1" using st0 by simp
  from pso_loop_stops_at_once[OF l this] h obtain c where st: "st = st0\<lparr>clock_reads := c\<rparr>"
    by blast
  have gb: "read_global_best st = initial_particles a e ! g"
    using st st0 by (simp add: read_global_best_def)
  have len: "length scores = length (initial_particles a e)" using those_length[OF sc] by simp
  have glt: "g < length (initial_particles a e)" using np_argmin_less[OF g] len by simp
  have "map (score_of a) (initial_particles a e) ! g = Some (scores ! g)"
    using those_nth[OF sc] glt by simp
  then have "score_of a (initial_particles a e ! g) = Some (scores ! g)" using glt by simp
  with ev gb have cost: "cost = scores ! g" by (simp add: score_of_def)
  have mn: "scores ! g = Min (set scores)" using np_argmin_Min[OF g] .
  show "result_completed_iterations r = 0" using r(4) st st0 by simp
  show "result_history r = []" using r(3) st st0 by simp
  show "\<exists>scores g. those (map (score_of a) (initial_particles a e)) = Some scores \<and>
          np_argmin scores = Some g \<and> g < length (initial_particles a e) \<and>
          scores ! g = Min (set scores) \<and>
          total_cost r = Min (set scores) \<and>
          facility_locations r = facility_rows (initial_particles a e ! g)"
    using sc g glt mn cost r(1,2) gb by auto
next
  assume h: "optimize_facility_locations_pso a e = Some r \<and> 0 \<le> n_iterations a"
  then obtain st0 st where
    i: "pso_init a e = Some st0" and l: "pso_loop a e [0..<nat (n_iterations a)] st0 = Some st"
    and r: "result_completed_iterations r = completed_iterations st"
    by (auto elim!: optimize_SomeE)
  have "completed_iterations st0 = 0" using i by (auto elim!: pso_init_SomeE)
  from pso_loop_upt[OF l this] have "completed_iterations st \<le> nat (n_iterations a)" by auto
  with h r show "int (result_completed_iterations r) \<le> n_iterations a" by linarith
qed

theorem no_iteration_returns_initial_best_witness:
  "optimize_facility_locations_pso (example_args\<lparr>n_iterations := 0\<rparr>) example_env
     = Some example_result0 \<and>
   n_iterations (example_args\<lparr>n_iterations := 0\<rparr>) \<le> 0 \<and>
   result_completed_iterations example_result0 = 0 \<and> result_history example_result0 = [] \<and>
   (\<exists>scores g.
      those (map (score_of (example_args\<lparr>n_iterations := 0\<rparr>))
               (initial_particles (example_args\<lparr>n_iterations := 0\<rparr>) example_env)) = Some scores \<and>
      np_argmin scores = Some g \<and>
      total_cost example_result0 = Min (set scores) \<and>
      facility_locations example_result0 =
        facility_rows (initial_particles (example_args\<lparr>n_iterations := 0\<rparr>) example_env ! g)) \<and>
   optimize_facility_locations_pso example_args example_env = Some example_result \<and>
   0 \<le> n_iterations example_args \<and>
   int (result_completed_iterations example_result) \<le> n_iterations example_args"
proof -
  have n0: "n_iterations (example_args\<lparr>n_iterations := 0\<rparr>) \<le> 0" by simp
  have n2: "0 \<le> n_iterations example_args" by (simp add: example_args_def)
  from no_iteration_returns_initial_best[of "example_args\<lparr>n_iterations := 0\<rparr>" example_env
      example_result0] example_run0 n0
  have p1: "result_completed_iterations example_result0 = 0 \<and> result_history example_result0 = [] \<and>
   (\<exists>scores g.
      those (map (score_of (example_args\<lparr>n_iterations := 0\<rparr>))
               (initial_particles (example_args\<lparr>n_iterations := 0\<rparr>) example_env)) = Some scores \<and>
      np_argmin scores = Some g \<and>
      total_cost example_result0 = Min (set scores) \<and>
      facility_locations example_result0 =
        facility_rows (initial_particles (example_args\<lparr>n_iterations := 0\<rparr>) example_env ! g))"
    by blast
  from no_iteration_returns_initial_best[of example_args example_env example_result]
    example_run n2
  have p2: "int (result_completed_iterations example_result) \<le> n_iterations example_args"
    by blast
  from p1 p2 example_run0 example_run n0 n2 show ?thesis by blast
qed

text \<open>
  With \<open>n_iterations = -1\<close> the loop body never runs and \<open>completed_iterations\<close> is 0, which
  is above \<open>n_iterations\<close>.
\<close>

theorem negative_iterations_counterexample:
  "\<exists>r. optimize_facility_locations_pso (example_args\<lparr>n_iterations := - 1\<rparr>) example_env = Some r \<and>
       \<not> int (result_completed_iterations r) \<le> n_iterations (example_args\<lparr>n_iterations := - 1\<rparr>)"
  by (simp add: optimize_facility_locations_pso_def pso_init_def example_args_def
      example_env_def pso_eval cost_eval)

subsection \<open>The global best during a sweep\<close>

lemma haversine_half_degree: "haversine_distance 0 0 0 (1/2) = 6371 * pi / 360"
proof -
  have pos: "0 < sin (pi / 720)" by (intro sin_gt_zero) simp_all
  have "arcsin (sin (pi / 720)) = pi / 720" by (intro arcsin_sin) simp_all
  with pos show ?thesis
    by (simp add: haversine_distance_def radians_def Let_def)
qed

lemma haversine_half_degree_pos: "0 < haversine_distance 0 0 0 (1/2)"
  by (simp add: haversine_half_degree)

lemma alias_score_far: "score_of alias_args [(0, 1/2)] = Some (6371 * pi / 360 + 1000500)"
  by (simp add: alias_args_def pso_eval cost_eval haversine_half_degree)

lemma alias_score_near: "score_of alias_args [(0, 0)] = Some 1000500"
  by (simp add: alias_args_def pso_eval cost_eval)

lemma alias_init: "pso_init alias_args alias_env = Some alias_swarm0"
proof -
  have p: "initial_particles alias_args alias_env = [[(0, 1/2)], [(0, 1/2)]]"
    by (simp add: initial_particles_def alias_args_def alias_env_def lat_bounds_def
        lon_bounds_def upt_rec)
  have v: "initial_velocities alias_args alias_env = [[(- 1, - 1)], [(0, 0)]]"
    by (simp add: initial_velocities_def alias_args_def alias_env_def upt_rec)
  have df: "customers_df alias_args \<noteq> []" "\<not> n_particles alias_args < 0"
    "\<not> n_facilities alias_args < 0" "inertia_weight alias_args = 0.9"
    by (simp_all add: alias_args_def)
  show ?thesis
    unfolding pso_init_def p v using df
    by (simp add: alias_score_far np_argmin_def alias_swarm0_def)
qed

lemma alias_bounds: "lat_bounds alias_args = (0, 0)" "lon_bounds alias_args = (0, 1)"
  by (simp_all add: lat_bounds_def lon_bounds_def alias_args_def)

lemma alias_consts:
  "n_facilities alias_args = 1" "cognitive_coefficient alias_args = 2"
  "social_coefficient alias_args = 2"
  by (simp_all add: alias_args_def)

lemmas particle_eval = update_particle_def Let_def arr2_def cadd_def csub_def cmul_def
  cscale_def clip_coord_def np_clip_def alias_bounds alias_consts read_global_best_def

lemma alias_first_particle:
  "update_particle alias_args alias_env 0 (read_global_best alias_swarm0) 0 alias_swarm0
     = Some alias_swarm1"
  by (simp add: particle_eval alias_swarm0_def alias_swarm1_def alias_env_def
      alias_score_near)

lemma alias_second_particle_code:
  "update_particle alias_args alias_env 0 (read_global_best alias_swarm1) (Suc 0) alias_swarm1
     = Some (alias_swarm1\<lparr>velocities := [[(- 0.9, - 0.9)], [(0, - 1/2)]],
                  particles := [[(0, 0)], [(0, 0)]],
                  personal_best_positions := [[(0, 0)], [(0, 0)]],
                  personal_best_scores := [1000500, 1000500]\<rparr>)"
  by (simp add: particle_eval alias_swarm0_def alias_swarm1_def alias_env_def
      alias_score_near)

lemma alias_second_particle_snapshot:
  "update_particle alias_args alias_env 0 (read_global_best alias_swarm0) (Suc 0) alias_swarm1
     = Some alias_swarm1"
  by (simp add: particle_eval alias_swarm0_def alias_swarm1_def alias_env_def
      alias_score_far)

lemma alias_range: "[0..<nat (n_particles alias_args)] = [0, 1]"
  by (simp add: alias_args_def upt_rec)

lemma alias_sweep_code:
  "sweep alias_args alias_env 0 [0..<nat (n_particles alias_args)] alias_swarm0
     = Some alias_swarm_code"
  unfolding alias_range
  by (simp add: alias_first_particle alias_second_particle_code alias_swarm_code_def)

lemma alias_sweep_snapshot:
  "sweep_snapshot alias_args alias_env 0 [0..<nat (n_particles alias_args)] alias_swarm0
     = Some alias_swarm1"
  unfolding alias_range sweep_snapshot_def
  by (simp add: alias_first_particle alias_second_particle_snapshot)

text \<open>
  Once the global best is a copy (from the first iteration that improves it), the sweep of
  the code is the sweep against a snapshot.
\<close>

lemma sweep_frozen_if_copy:
  assumes "global_best_position st = Copy p"
  shows "sweep a e it is st = sweep_frozen a e it p is st"
  using assms
proof (induction "is" arbitrary: st)
  case Nil
  then show ?case by simp
next
  case (Cons i rest)
  have rd: "read_global_best st = p" using Cons.prems by (simp add: read_global_best_def)
  show ?case
  proof (cases "update_particle a e it p i st")
    case None
    then show ?thesis using rd by simp
  next
    case (Some st1)
    then have "global_best_position st1 = Copy p"
      using update_particle_frame(6)[OF Some] Cons.prems by simp
    from Cons.IH[OF this] Some rd show ?thesis by simp
  qed
qed

lemma sweep_is_snapshot_if_copy:
  "global_best_position st = Copy p \<Longrightarrow> sweep a e it is st = sweep_snapshot a e it is st"
  by (simp add: sweep_snapshot_def sweep_frozen_if_copy read_global_best_def)

text \<open>
  C4 fails on the code. In the first sweep of this run the global best position is still a
  view of particle 0's personal best. Particle 0 improves and overwrites that row, and
  particle 1, updated next, reads the new row in its social term: its velocity becomes
  \<open>(0, -1/2)\<close> and it lands on \<open>(0, 0)\<close>, where a sweep against the snapshot taken before
  the sweep leaves it at rest at \<open>(0, 1/2)\<close>.
\<close>

theorem global_best_view_read_mid_sweep:
  "pso_init alias_args alias_env = Some alias_swarm0 \<and>
   sweep alias_args alias_env 0 [0..<nat (n_particles alias_args)] alias_swarm0
     = Some alias_swarm_code \<and>
   sweep_snapshot alias_args alias_env 0 [0..<nat (n_particles alias_args)] alias_swarm0
     = Some alias_swarm1 \<and>
   velocities alias_swarm_code ! 1 = [(0, - 1/2)] \<and>
   velocities alias_swarm1 ! 1 = [(0, 0)] \<and>
   particles alias_swarm_code ! 1 = [(0, 0)] \<and>
   particles alias_swarm1 ! 1 = [(0, 1/2)] \<and>
   sweep alias_args alias_env 0 [0..<nat (n_particles alias_args)] alias_swarm0 \<noteq>
   sweep_snapshot alias_args alias_env 0 [0..<nat (n_particles alias_args)] alias_swarm0"
proof -
  have v: "velocities alias_swarm_code ! 1 = [(0, - 1/2)]"
    "velocities alias_swarm1 ! 1 = [(0, 0)]"
    "particles alias_swarm_code ! 1 = [(0, 0)]"
    "particles alias_swarm1 ! 1 = [(0, 1/2)]"
    by (simp_all add: alias_swarm_code_def alias_swarm1_def)
  then have "alias_swarm_code \<noteq> alias_swarm1" by auto
  with v alias_init alias_sweep_code alias_sweep_snapshot show ?thesis by simp
qed

end
